(* ===== verification/Prelude.thy ===== *)
theory Prelude
  imports Main "HOL-Library.Char_ord" "HOL-Library.List_Lexorder" "HOL-Library.Multiset"
begin

text \<open>
  What every component of the development shares: the type of outcomes of a Go call (a value, a
  returned error, a panic), the errors and panics the program can produce, the lemma collections
  of the library, and generic facts on lists and maps.

  \<^item> \<open>result\<close>: a Go function of type \<open>(T, error)\<close> returns \<^term>\<open>Ok v\<close> or \<^term>\<open>Err e\<close>; a nil
    dereference, an index out of range or a failed type assertion is \<^term>\<open>Panic p\<close>.
  \<^item> \<open>error\<close>: the error values, with the wrapping of \<open>fmt.Errorf("...: %w", err)\<close> kept as
    \<open>Wrap\<close>, so that \<open>errors.Is\<close> and the predicates of \<open>apierrors\<close> can look through it; a message
    formatted with \<open>%v\<close> is \<open>Formatted\<close>, which hides the error in it.
  \<^item> Go strings are byte strings; they are HOL strings, and \<open><\<close> on strings is the bytewise
    lexicographic order of Go (\<open>HOL-Library.List_Lexorder\<close> over \<open>HOL-Library.Char_ord\<close>).
\<close>

section \<open>Lemma collections\<close>

named_theorems go_simps \<open>unfoldings of the Go library functions on strings\<close>
named_theorems plugin_defs \<open>the definitions of the plugins' handlers\<close>
named_theorems action_defs \<open>the definitions of the controller's actions\<close>

section \<open>Errors, panics and outcomes\<close>

text \<open>The reasons of a Kubernetes API status error the source distinguishes.\<close>

datatype api_reason =
    NotFound
  | AlreadyExists
  | Conflict
  | Invalid
  | BadRequest
  | OtherReason string

datatype error =
    APIStatus api_reason
  | ErrNotExist
  | ErrExist
  | ErrLockHeld
  | ContextDone
  | ErrorString string
  | ErrorValue string string
  | Wrap string error
  | Formatted string error

datatype panic =
    NilDereference
  | IndexOutOfRange
  | TypeAssertion
  | PluginAlreadyRegistered string
  | FatalExit string

datatype 'a result = Ok 'a | Err error | Panic panic

type_synonym bytes = string

text \<open>Sequencing: the continuation runs on a value only, as the code after an early return.\<close>

fun bind_result :: "'a result \<Rightarrow> ('a \<Rightarrow> 'b result) \<Rightarrow> 'b result" where
  "bind_result (Ok v) f = f v"
| "bind_result (Err e) f = Err e"
| "bind_result (Panic p) f = Panic p"

fun is_Ok :: "'a result \<Rightarrow> bool" where
  "is_Ok (Ok v) = True"
| "is_Ok _ = False"

text \<open>A pointer that is dereferenced: \<open>None\<close> is nil.\<close>

fun deref :: "'a option \<Rightarrow> 'a result" where
  "deref None = Panic NilDereference"
| "deref (Some v) = Ok v"

lemma bind_result_eq_Ok [simp]:
  "bind_result m f = Ok w \<longleftrightarrow> (\<exists>v. m = Ok v \<and> f v = Ok w)"
  by (cases m) auto

lemma deref_eq_Ok [simp]: "deref p = Ok v \<longleftrightarrow> p = Some v"
  by (cases p) auto

lemma bind_result_assoc:
  "bind_result (bind_result m f) g = bind_result m (\<lambda>v. bind_result (f v) g)"
  by (cases m) simp_all

lemma is_Ok_iff: "is_Ok r \<longleftrightarrow> (\<exists>v. r = Ok v)"
  by (cases r) auto

lemma bind_result_cong [fundef_cong]:
  assumes "m = m'" and "\<And>v. m' = Ok v \<Longrightarrow> f v = g v"
  shows "bind_result m f = bind_result m' g"
  using assms by (cases m') auto

text \<open>
  \<open>apierrors.ReasonForError\<close> and \<open>errors.Is\<close> follow the chain of wrapped errors.
\<close>

fun reason_of :: "error \<Rightarrow> api_reason option" where
  "reason_of (APIStatus r) = Some r"
| "reason_of (Wrap msg e) = reason_of e"
| "reason_of _ = None"

fun errors_Is :: "error \<Rightarrow> error \<Rightarrow> bool" where
  "errors_Is (Wrap msg e) target = (Wrap msg e = target \<or> errors_Is e target)"
| "errors_Is e target = (e = target)"

abbreviation IsNotFound :: "error \<Rightarrow> bool" where
  "IsNotFound e \<equiv> reason_of e = Some NotFound"

abbreviation IsAlreadyExists :: "error \<Rightarrow> bool" where
  "IsAlreadyExists e \<equiv> reason_of e = Some AlreadyExists"

abbreviation IsInvalid :: "error \<Rightarrow> bool" where
  "IsInvalid e \<equiv> reason_of e = Some Invalid"

abbreviation IsBadRequest :: "error \<Rightarrow> bool" where
  "IsBadRequest e \<equiv> reason_of e = Some BadRequest"

section \<open>Loops over a slice\<close>

text \<open>
  \<open>for _, x := range xs { ... }\<close> with a body that may return early: the loop carries its state
  and stops at the first error or panic.
\<close>

fun range_loop :: "('a \<Rightarrow> 's \<Rightarrow> 's result) \<Rightarrow> 'a list \<Rightarrow> 's \<Rightarrow> 's result" where
  "range_loop f [] s = Ok s"
| "range_loop f (x # xs) s = bind_result (f x s) (range_loop f xs)"

lemma range_loop_append:
  "range_loop f (xs @ ys) s = bind_result (range_loop f xs s) (range_loop f ys)"
  by (induction xs arbitrary: s) (auto simp: bind_result_assoc intro: bind_result_cong)

lemma range_loop_cong [fundef_cong]:
  assumes "xs = ys" and "s = t" and "\<And>x s. x \<in> set ys \<Longrightarrow> f x s = g x s"
  shows "range_loop f xs s = range_loop g ys t"
proof -
  have "range_loop f ys t = range_loop g ys t"
    using assms(3) by (induction ys arbitrary: t) (auto intro: bind_result_cong)
  with assms(1,2) show ?thesis by simp
qed

text \<open>An invariant of the body is an invariant of the loop.\<close>

lemma range_loop_invariant:
  assumes "range_loop f xs s = Ok t" and "P s"
    and "\<And>x s s'. x \<in> set xs \<Longrightarrow> P s \<Longrightarrow> f x s = Ok s' \<Longrightarrow> P s'"
  shows "P t"
  using assms by (induction xs arbitrary: s) auto

text \<open>A loop that returns has run its body on every element.\<close>

lemma range_loop_each:
  "range_loop f xs s = Ok t \<Longrightarrow> x \<in> set xs \<Longrightarrow> \<exists>s1 s2. f x s1 = Ok s2"
  by (induction xs arbitrary: s) auto

text \<open>A body that always returns makes a loop that always returns.\<close>

lemma range_loop_Ok:
  assumes "P s" and "\<And>x s. x \<in> set xs \<Longrightarrow> P s \<Longrightarrow> \<exists>s'. f x s = Ok s' \<and> P s'"
  shows "\<exists>t. range_loop f xs s = Ok t \<and> P t"
  using assms
proof (induction xs arbitrary: s)
  case Nil
  then show ?case by simp
next
  case (Cons x xs)
  from Cons.prems obtain s' where "f x s = Ok s'" and "P s'"
    by fastforce
  with Cons.IH [of s'] Cons.prems(2) show ?case by simp
qed

text \<open>
  A loop whose body appends to its state collects one list per element, each related to its
  element. \<open>range_loop_collect\<close> is the case of one value per element.
\<close>

lemma range_loop_concat:
  assumes "\<And>x acc acc'. x \<in> set xs \<Longrightarrow> g x acc = Ok acc' \<Longrightarrow> \<exists>qs. acc' = acc @ qs \<and> R x qs"
    and "range_loop g xs acc = Ok ys"
  shows "\<exists>qss. ys = acc @ concat qss \<and> list_all2 R xs qss"
  using assms
proof (induction xs arbitrary: acc)
  case Nil
  then show ?case by simp
next
  case (Cons x xs)
  from Cons.prems(2) obtain acc1 where step: "g x acc = Ok acc1" and rest: "range_loop g xs acc1 = Ok ys"
    by auto
  from Cons.prems(1) [OF _ step] obtain qs where qs: "acc1 = acc @ qs" "R x qs" by auto
  from Cons.IH [OF Cons.prems(1) rest] obtain qss where
    "ys = acc1 @ concat qss" "list_all2 R xs qss" by auto
  with qs show ?case by (intro exI [of _ "qs # qss"]) simp
qed

lemma range_loop_collect:
  "range_loop (\<lambda>x acc. bind_result (f x) (\<lambda>q. Ok (acc @ [q]))) xs acc = Ok ys \<longleftrightarrow>
     (\<exists>qs. ys = acc @ qs \<and> list_all2 (\<lambda>x q. f x = Ok q) xs qs)"
proof (induction xs arbitrary: acc)
  case Nil
  then show ?case by auto
next
  case (Cons x xs)
  then show ?case by (auto simp: list_all2_Cons1)
qed

text \<open>A body that never panics makes a loop that never panics.\<close>

lemma range_loop_no_panic:
  assumes "\<And>x s. x \<in> set xs \<Longrightarrow> f x s \<noteq> Panic p"
  shows "range_loop f xs s \<noteq> Panic p"
  using assms
proof (induction xs arbitrary: s)
  case (Cons x xs)
  then show ?case by (cases "f x s") auto
qed simp

section \<open>Lists and maps\<close>

lemma list_all2_concat:
  "list_all2 (\<lambda>x ys. list_all2 R (f x) ys) xs yss \<Longrightarrow> list_all2 R (concat (map f xs)) (concat yss)"
  by (induction rule: list_all2_induct) (auto intro: list_all2_appendI)

lemma map_update_id:
  "i < length xs \<Longrightarrow> f y = f (xs ! i) \<Longrightarrow> map f (xs[i := y]) = map f xs"
  by (metis list_update_id map_update)

lemma find_Some_in: "List.find P xs = Some x \<Longrightarrow> x \<in> set xs \<and> P x"
  by (metis find_Some_iff nth_mem)

lemma find_None_all: "List.find P xs = None \<longleftrightarrow> (\<forall>x \<in> set xs. \<not> P x)"
  by (auto simp: find_None_iff)

lemma find_distinct_key:
  assumes "distinct (map k xs)" and "x \<in> set xs"
  shows "List.find (\<lambda>y. k y = k x) xs = Some x"
  using assms by (induction xs) (auto simp: image_iff split: if_splits)

end
