(* ===== verification/Stable_Sort.thy ===== *)
theory Stable_Sort
  imports Prelude
begin

text \<open>
  Go's \<open>sort.SliceStable(xs, less)\<close>, which the program calls in four places (\<open>sortPlugins\<close>,
  \<open>sortRoutes\<close>, \<open>updateIngStatuses\<close>, \<open>sliceToLoadBalancerIngress\<close>). The library asks for a
  \<open>less\<close> that is a strict weak order and promises a sorted, stable permutation. The interface is
  the locale \<open>strict_weak_order\<close>; every client interprets it on its own comparison. The locale
  also shows that this contract determines the result, so that \<open>slice_stable\<close>, an insertion
  sort, is equal to whatever stable sorting algorithm the library uses.
  The extension \<open>keyed_total_order\<close> is for comparisons whose ties are equal keys: the result is
  then independent of the order of the input, which matters where a Go map is iterated.
\<close>

section \<open>The sorting function\<close>

fun insert_stable :: "('a \<Rightarrow> 'a \<Rightarrow> bool) \<Rightarrow> 'a \<Rightarrow> 'a list \<Rightarrow> 'a list" where
  "insert_stable lt x [] = [x]"
| "insert_stable lt x (y # ys) =
     (if lt y x then y # insert_stable lt x ys else x # y # ys)"

fun slice_stable :: "('a \<Rightarrow> 'a \<Rightarrow> bool) \<Rightarrow> 'a list \<Rightarrow> 'a list" where
  "slice_stable lt [] = []"
| "slice_stable lt (x # xs) = insert_stable lt x (slice_stable lt xs)"

lemma mset_insert_stable: "mset (insert_stable lt x xs) = add_mset x (mset xs)"
  by (induction xs) auto

lemma mset_slice_stable [simp]: "mset (slice_stable lt xs) = mset xs"
  by (induction xs) (auto simp: mset_insert_stable)

lemma set_slice_stable [simp]: "set (slice_stable lt xs) = set xs"
  by (metis mset_slice_stable set_mset_mset)

lemma set_insert_stable: "set (insert_stable lt x xs) = insert x (set xs)"
  by (metis mset_insert_stable set_mset_add_mset_insert set_mset_mset)

lemma length_slice_stable [simp]: "length (slice_stable lt xs) = length xs"
  by (metis mset_slice_stable size_mset)

lemma distinct_map_slice_stable [simp]:
  "distinct (map k (slice_stable lt xs)) \<longleftrightarrow> distinct (map k xs)"
  by (metis mset_map mset_slice_stable mset_eq_imp_distinct_iff)

lemma insert_stable_cong:
  "(\<And>y. y \<in> set xs \<Longrightarrow> lt y x = lt' y x) \<Longrightarrow> insert_stable lt x xs = insert_stable lt' x xs"
  by (induction xs) auto

text \<open>Comparisons that agree on the elements sort them in the same way.\<close>

lemma slice_stable_cong:
  assumes "\<And>x y. x \<in> set xs \<Longrightarrow> y \<in> set xs \<Longrightarrow> lt x y = lt' x y"
  shows "slice_stable lt xs = slice_stable lt' xs"
  using assms
proof (induction xs)
  case (Cons x xs)
  then have "slice_stable lt xs = slice_stable lt' xs" by simp
  with Cons.prems show ?case by (auto intro: insert_stable_cong)
qed simp

section \<open>The contract of a comparison\<close>

text \<open>\<open>ranked lt xs\<close>: no element is less than one before it.\<close>

abbreviation ranked :: "('a \<Rightarrow> 'a \<Rightarrow> bool) \<Rightarrow> 'a list \<Rightarrow> bool" where
  "ranked lt xs \<equiv> sorted_wrt (\<lambda>x y. \<not> lt y x) xs"

text \<open>\<open>tied lt x xs\<close>: the elements of \<open>xs\<close> that the comparison does not separate from \<open>x\<close>.\<close>

abbreviation tied :: "('a \<Rightarrow> 'a \<Rightarrow> bool) \<Rightarrow> 'a \<Rightarrow> 'a list \<Rightarrow> 'a list" where
  "tied lt x xs \<equiv> filter (\<lambda>y. \<not> lt x y \<and> \<not> lt y x) xs"

locale strict_weak_order =
  fixes lt :: "'a \<Rightarrow> 'a \<Rightarrow> bool"
  assumes lt_asym: "lt x y \<Longrightarrow> \<not> lt y x"
    and lt_cotrans: "lt x z \<Longrightarrow> lt x y \<or> lt y z"
begin

lemma lt_irrefl: "\<not> lt x x"
  using lt_asym by blast

lemma lt_trans: "lt x y \<Longrightarrow> lt y z \<Longrightarrow> lt x z"
  using lt_asym lt_cotrans by blast

lemma ranked_insert: "ranked lt xs \<Longrightarrow> ranked lt (insert_stable lt x xs)"
proof (induction xs)
  case Nil
  then show ?case by simp
next
  case (Cons y ys)
  show ?case
  proof (cases "lt y x")
    case True
    with Cons show ?thesis
      by (auto simp: set_insert_stable dest: lt_asym)
  next
    case False
    with Cons.prems show ?thesis
      by (auto dest: lt_cotrans)
  qed
qed

lemma ranked_slice_stable: "ranked lt (slice_stable lt xs)"
  by (induction xs) (auto intro: ranked_insert)

lemma tied_insert:
  "ranked lt xs \<Longrightarrow> tied lt a (insert_stable lt x xs) = tied lt a (x # xs)"
proof (induction xs)
  case Nil
  then show ?case by simp
next
  case (Cons y ys)
  have "\<not> (\<not> lt a x \<and> \<not> lt x a \<and> \<not> lt a y \<and> \<not> lt y a)" if "lt y x"
    using that lt_cotrans [of y x a] by blast
  with Cons show ?case by auto
qed

lemma stable_slice_stable: "tied lt a (slice_stable lt xs) = tied lt a xs"
  by (induction xs) (simp_all add: tied_insert [OF ranked_slice_stable])

text \<open>Sorted, a permutation and stable: there is one such list only.\<close>

lemma ranked_stable_unique:
  assumes "ranked lt xs" and "ranked lt ys" and "mset xs = mset ys"
    and "\<And>a. tied lt a xs = tied lt a ys"
  shows "xs = ys"
  using assms
proof (induction xs arbitrary: ys)
  case Nil
  then show ?case by simp
next
  case (Cons x xs)
  from Cons.prems(3) obtain y zs where ys: "ys = y # zs"
    by (cases ys) auto
  have "x \<in> set (y # zs)" and "y \<in> set (x # xs)"
    using Cons.prems(3) ys by (metis list.set_intros(1) mset_eq_setD)+
  with Cons.prems(1,2) ys have xy: "\<not> lt x y" "\<not> lt y x"
    by (auto simp: lt_irrefl)
  from Cons.prems(4) [of x] ys xy have eq: "x = y"
    by (simp add: lt_irrefl)
  have "tied lt a xs = tied lt a zs" for a
    using Cons.prems(4) [of a] ys eq by (auto split: if_splits)
  then have "xs = zs"
    using Cons.prems ys eq by (intro Cons.IH) auto
  with ys eq show ?case by simp
qed

theorem slice_stable_unique:
  assumes "ranked lt ys" and "mset ys = mset xs" and "\<And>a. tied lt a ys = tied lt a xs"
  shows "ys = slice_stable lt xs"
proof (rule ranked_stable_unique)
  show "ranked lt ys" by (fact assms(1))
  show "ranked lt (slice_stable lt xs)" by (rule ranked_slice_stable)
  show "mset ys = mset (slice_stable lt xs)" using assms(2) by simp
  show "tied lt a ys = tied lt a (slice_stable lt xs)" for a
    using assms(3) by (simp only: stable_slice_stable)
qed

lemma slice_stable_id: "ranked lt xs \<Longrightarrow> slice_stable lt xs = xs"
  by (rule sym, rule slice_stable_unique) auto

end

text \<open>
  A comparison whose ties are exactly the elements with equal keys: on a list with distinct keys
  it is a total order, and the sorted list does not depend on how the input was arranged.
\<close>

locale keyed_total_order = strict_weak_order lt
  for lt :: "'a \<Rightarrow> 'a \<Rightarrow> bool" +
  fixes key :: "'a \<Rightarrow> 'k"
  assumes tie_key: "\<not> lt x y \<Longrightarrow> \<not> lt y x \<Longrightarrow> key x = key y"
begin

lemma tied_key_unique:
  assumes "distinct (map key xs)" and "x \<in> set xs"
  shows "tied lt x xs = [x]"
  using assms
proof (induction xs)
  case Nil
  then show ?case by simp
next
  case (Cons y ys)
  have none: "tied lt x ys = []" if "key x \<notin> key ` set ys"
  proof -
    have "lt x z \<or> lt z x" if "z \<in> set ys" for z
      using \<open>key x \<notin> key ` set ys\<close> tie_key [of x z] that by auto
    then show ?thesis by (auto simp: filter_empty_conv)
  qed
  show ?case
  proof (cases "x = y")
    case True
    with Cons.prems none show ?thesis by (simp add: lt_irrefl)
  next
    case False
    with Cons.prems have "x \<in> set ys" and "key x \<noteq> key y"
      by (auto simp: image_iff)
    with Cons tie_key [of x y] show ?thesis by auto
  qed
qed

theorem slice_stable_input_order:
  assumes "mset xs = mset ys" and "distinct (map key xs)"
  shows "slice_stable lt xs = slice_stable lt ys"
proof (rule slice_stable_unique)
  show "ranked lt (slice_stable lt xs)"
    by (rule ranked_slice_stable)
  show "mset (slice_stable lt xs) = mset ys"
    using assms(1) by simp
  have ys: "distinct (map key ys)" and set_eq: "set xs = set ys"
    using assms by (metis mset_eq_imp_distinct_iff mset_map, metis set_mset_mset)
  fix a
  show "tied lt a (slice_stable lt xs) = tied lt a ys"
  proof (cases "\<exists>b \<in> set xs. \<not> lt a b \<and> \<not> lt b a")
    case True
    then obtain b where b: "b \<in> set xs" "\<not> lt a b" "\<not> lt b a" by blast
    have "tied lt a zs = tied lt b zs" for zs
      using b(2,3) lt_cotrans lt_asym by (intro filter_cong) blast+
    with b(1) show ?thesis
      using assms(2) ys set_eq by (simp add: stable_slice_stable tied_key_unique)
  next
    case False
    then have "tied lt a xs = []" and "tied lt a ys = []"
      using set_eq by (simp_all add: filter_empty_conv)
    then show ?thesis by (simp add: stable_slice_stable)
  qed
qed

end

text \<open>
  Comparing by a rank: the usual way to see that a comparison is a strict weak order.
\<close>

lemma strict_weak_order_rank:
  fixes r :: "'a \<Rightarrow> 'b :: linorder"
  assumes "\<And>x y. lt x y \<longleftrightarrow> r x < r y"
  shows "strict_weak_order lt"
proof
  show "\<not> lt y x" if "lt x y" for x y
    using that assms by auto
  show "lt x y \<or> lt y z" if "lt x z" for x y z
    using that assms by (meson le_less_trans not_less)
qed

end
