(* ===== verification/Kube_Types.thy ===== *)
theory Kube_Types
  imports Prelude
begin

text \<open>
  The Kubernetes objects the program reads (\<open>k8s.io/api\<close>), with the fields it uses. A Go struct
  that embeds \<open>metav1.ObjectMeta\<close> is a record that extends \<open>ObjectMeta\<close>; a pointer that may be
  nil is an \<open>option\<close>; a Go map that is only looked up is a partial function, one that is iterated
  or measured is an association list with distinct keys.
\<close>

type_synonym labels = "(string \<times> string) list"

record ObjectMeta =
  Name :: string
  Namespace :: string
  UID :: string
  Annotations :: "string \<rightharpoonup> string"

section \<open>Ingress\<close>

datatype PathType = PathTypeExact | PathTypePrefix | PathTypeImplementationSpecific

record IngressServiceBackend =
  ServiceName :: string
  PortNumber :: int

record HTTPIngressPath =
  Path :: string
  PathTypeOf :: "PathType option"
  BackendService :: "IngressServiceBackend option"

record IngressRule =
  Host :: string
  HTTP :: "HTTPIngressPath list option"

record IngressTLS =
  Hosts :: "string list"
  SecretName :: string

record IngressLoadBalancerIngress =
  IP :: string
  Hostname :: string

record Ingress = ObjectMeta +
  IngressClassName :: "string option"
  TLS :: "IngressTLS list"
  Rules :: "IngressRule list"
  LoadBalancerIngress :: "IngressLoadBalancerIngress list"

text \<open>An ingress with the given annotations, TLS entries and rules, for examples.\<close>

definition sample_ingress ::
  "(string \<rightharpoonup> string) \<Rightarrow> IngressTLS list \<Rightarrow> IngressRule list \<Rightarrow> Ingress" where
  "sample_ingress annotations tls rules =
     \<lparr>Name = ''web'', Namespace = ''default'', UID = ''u1'', Annotations = annotations,
      IngressClassName = None, TLS = tls, Rules = rules, LoadBalancerIngress = []\<rparr>"

section \<open>ConfigMap, Secret, Pod and Service\<close>

record ConfigMap = ObjectMeta +
  ConfigData :: "(string \<times> string) list"

datatype SecretType = SecretTypeTLS | SecretTypeOther string

record Secret = ObjectMeta +
  SecretTypeOf :: SecretType
  SecretData :: "(string \<times> bytes) list"

record Pod = ObjectMeta +
  PodLabels :: labels

datatype ServiceType =
    ServiceTypeNodePort
  | ServiceTypeClusterIP
  | ServiceTypeExternalName
  | ServiceTypeLoadBalancer
  | ServiceTypeOther string

record Service = ObjectMeta +
  Selector :: labels
  ServiceTypeOf :: ServiceType
  ClusterIP :: string
  ExternalName :: string
  ServiceLoadBalancer :: "IngressLoadBalancerIngress list"

end
