(* ===== verification/Resource_Store.thy ===== *)
theory Resource_Store
  imports Kube_Types
begin

text \<open>
  The package \<open>pkg/store\<close>: the options of the command line, the options of the config map, the
  pod the controller runs in, and the store of resources the Caddy configuration is generated
  from. The ingresses are kept in a slice: \<open>AddIngress\<close> overwrites the entries with the same UID
  or appends, \<open>PluckIngress\<close> swaps the first match with the last entry and shortens the slice.

  The contract of the store is the locale \<open>resource_store\<close>: a finite map from UIDs to ingresses.
  \<open>store_change\<close> is the abstract specification of a sequence of changes, and the refinement
  lemma of the locale shows that a store keeps step with it. The controller relies on it.
\<close>

section \<open>Data\<close>

record Options =
  WatchNamespace :: string
  ConfigMapName :: string
  ClassName :: string
  ClassNameRequired :: bool
  Verbose :: bool
  OptionsLeaseID :: string
  PluginsOrder :: "string list"

text \<open>Options for examples: those of a run without flags.\<close>

definition sample_options :: Options where
  "sample_options =
     \<lparr>WatchNamespace = [], ConfigMapName = [], ClassName = ''caddy'', ClassNameRequired = False,
      Verbose = False, OptionsLeaseID = [], PluginsOrder = [[]]\<rparr>"

record PodInfo =
  PodName :: string
  PodNamespace :: string
  PodInfoLabels :: labels

record ConfigMapOptions =
  Debug :: bool
  AcmeCA :: string
  AcmeEABKeyID :: string
  AcmeEABMacKey :: string
  Email :: string
  ExperimentalSmartSort :: bool
  ProxyProtocol :: bool
  Metrics :: bool
  OnDemandTLS :: bool
  OnDemandAsk :: string
  OCSPCheckInterval :: int

text \<open>The zero value \<open>ConfigMapOptions{}\<close>.\<close>

definition zeroConfigMapOptions :: ConfigMapOptions where
  "zeroConfigMapOptions =
     \<lparr>Debug = False, AcmeCA = [], AcmeEABKeyID = [], AcmeEABMacKey = [], Email = [],
      ExperimentalSmartSort = False, ProxyProtocol = False, Metrics = False,
      OnDemandTLS = False, OnDemandAsk = [], OCSPCheckInterval = 0\<rparr>"

record Store =
  StoreOptions :: Options
  Ingresses :: "Ingress list"
  StoreConfigMap :: "ConfigMapOptions option"
  ConfigNamespace :: string
  CurrentPod :: "PodInfo option"

section \<open>Operations\<close>

definition NewStore :: "Options \<Rightarrow> string \<Rightarrow> PodInfo option \<Rightarrow> Store" where
  "NewStore opts configNamespace podInfo =
     \<lparr>StoreOptions = opts, Ingresses = [], StoreConfigMap = Some zeroConfigMapOptions,
      ConfigNamespace = configNamespace, CurrentPod = podInfo\<rparr>"

text \<open>The loop of \<open>AddIngress\<close>: the slice with its matches overwritten, and \<open>isUniq\<close>.\<close>

fun AddIngress_loop :: "Ingress \<Rightarrow> Ingress list \<Rightarrow> bool \<Rightarrow> Ingress list \<times> bool" where
  "AddIngress_loop ing [] isUniq = ([], isUniq)"
| "AddIngress_loop ing (i # ings) isUniq =
     (if UID i = UID ing
      then (let (rest, u) = AddIngress_loop ing ings False in (ing # rest, u))
      else (let (rest, u) = AddIngress_loop ing ings isUniq in (i # rest, u)))"

definition AddIngress :: "Ingress \<Rightarrow> Store \<Rightarrow> Store" where
  "AddIngress ing s =
     (let (ings, isUniq) = AddIngress_loop ing (Ingresses s) True
      in if isUniq then s\<lparr>Ingresses := ings @ [ing]\<rparr> else s\<lparr>Ingresses := ings\<rparr>)"

text \<open>The loop of \<open>PluckIngress\<close>: the index of the first match; \<open>None\<close> is \<open>hasMatch = false\<close>.\<close>

fun PluckIngress_loop :: "string \<Rightarrow> Ingress list \<Rightarrow> nat \<Rightarrow> nat option" where
  "PluckIngress_loop uid [] i = None"
| "PluckIngress_loop uid (x # xs) i =
     (if UID x = uid then Some i else PluckIngress_loop uid xs (Suc i))"

definition PluckIngress :: "Ingress \<Rightarrow> Store \<Rightarrow> Store" where
  "PluckIngress ing s =
     (case PluckIngress_loop (UID ing) (Ingresses s) 0 of
        None \<Rightarrow> s
      | Some index \<Rightarrow>
          (let ings = Ingresses s; n = length ings - 1;
               swapped = ings[n := ings ! index, index := ings ! n]
           in s\<lparr>Ingresses := take n swapped\<rparr>))"

definition HasManagedTLS :: "Store \<Rightarrow> bool" where
  "HasManagedTLS s \<longleftrightarrow> list_ex (\<lambda>ing. 0 < length (TLS ing)) (Ingresses s)"

section \<open>Parsing the config map\<close>

text \<open>
  The values the decoder hands to its hook, and the types it decodes to, as far as the hook of
  \<open>configmap_parser.go\<close> tells them apart.
\<close>

datatype decode_value = StringValue string | DurationValue int | OtherValue string

datatype decode_type = CaddyDurationType | OtherType string

fun stringToCaddyDurationHookFunc ::
  "(string \<Rightarrow> int result) \<Rightarrow> decode_type \<Rightarrow> decode_value \<Rightarrow> decode_value result" where
  "stringToCaddyDurationHookFunc ParseDuration t (StringValue data) =
     (if t \<noteq> CaddyDurationType then Ok (StringValue data)
      else bind_result (ParseDuration data) (\<lambda>d. Ok (DurationValue d)))"
| "stringToCaddyDurationHookFunc ParseDuration t data = Ok data"

record DecoderConfig =
  WeaklyTypedInput :: bool
  TagName :: string
  DecodeHook :: "decode_type \<Rightarrow> decode_value \<Rightarrow> decode_value result"
  DecodeResult :: ConfigMapOptions

text \<open>
  \<open>mapstructure.NewDecoder\<close> and \<open>Decode\<close>, and \<open>caddy.ParseDuration\<close>, are third-party code:
  parameters of \<open>ParseConfigMap\<close>.
\<close>

definition ParseConfigMap ::
  "(DecoderConfig \<Rightarrow> ((string \<times> string) list \<Rightarrow> ConfigMapOptions result) result) \<Rightarrow>
   (string \<Rightarrow> int result) \<Rightarrow> ConfigMap \<Rightarrow> ConfigMapOptions result" where
  "ParseConfigMap NewDecoder ParseDuration cm =
     (case NewDecoder \<lparr>WeaklyTypedInput = True, TagName = ''json'',
             DecodeHook = stringToCaddyDurationHookFunc ParseDuration,
             DecodeResult = zeroConfigMapOptions\<rparr> of
        Err e \<Rightarrow> Err (Wrap ''unexpected error creating decoder'' e)
      | Panic p \<Rightarrow> Panic p
      | Ok Decode \<Rightarrow>
          (case Decode (ConfigData cm) of
             Err e \<Rightarrow> Err (Wrap ''unexpected error parsing configmap'' e)
           | Panic p \<Rightarrow> Panic p
           | Ok cfgMap \<Rightarrow> Ok cfgMap))"

section \<open>The contract: a map from UIDs to resources\<close>

definition lookup_key :: "('r \<Rightarrow> 'k) \<Rightarrow> 'r list \<Rightarrow> 'k \<Rightarrow> 'r option" where
  "lookup_key key rs k = List.find (\<lambda>r. key r = k) rs"

datatype 'r change = Upsert 'r | Remove 'r

fun store_change :: "('r \<Rightarrow> 'k) \<Rightarrow> 'r change \<Rightarrow> ('k \<rightharpoonup> 'r) \<Rightarrow> ('k \<rightharpoonup> 'r)" where
  "store_change key (Upsert r) m = m(key r \<mapsto> r)"
| "store_change key (Remove r) m = m(key r := None)"

fun apply_change :: "('r \<Rightarrow> 's \<Rightarrow> 's) \<Rightarrow> ('r \<Rightarrow> 's \<Rightarrow> 's) \<Rightarrow> 'r change \<Rightarrow> 's \<Rightarrow> 's" where
  "apply_change add pluck (Upsert r) s = add r s"
| "apply_change add pluck (Remove r) s = pluck r s"

lemma lookup_key_Some_iff:
  assumes "distinct (map key rs)"
  shows "lookup_key key rs k = Some r \<longleftrightarrow> r \<in> set rs \<and> key r = k"
  unfolding lookup_key_def
  using assms find_Some_in [of "\<lambda>r. key r = k" rs r] find_distinct_key [of key rs r] by auto

text \<open>Two lists with distinct keys and the same elements are the same map.\<close>

lemma lookup_key_eqI:
  assumes "distinct (map key rs)"
    and "\<And>r. r \<in> set rs \<longleftrightarrow> m (key r) = Some r"
    and "\<And>k r. m k = Some r \<Longrightarrow> key r = k"
  shows "lookup_key key rs = m"
proof
  fix k
  show "lookup_key key rs k = m k"
  proof (cases "m k")
    case None
    then have "\<forall>r \<in> set rs. key r \<noteq> k" using assms(2) by fastforce
    with None show ?thesis by (simp add: lookup_key_def find_None_all)
  next
    case (Some r)
    with assms show ?thesis by (simp add: lookup_key_Some_iff)
  qed
qed

locale resource_store =
  fixes add :: "'r \<Rightarrow> 's \<Rightarrow> 's"
    and pluck :: "'r \<Rightarrow> 's \<Rightarrow> 's"
    and items :: "'s \<Rightarrow> 'r list"
    and key :: "'r \<Rightarrow> 'k"
  assumes distinct_add: "distinct (map key (items s)) \<Longrightarrow> distinct (map key (items (add r s)))"
    and set_add: "distinct (map key (items s)) \<Longrightarrow>
      set (items (add r s)) = insert r {x \<in> set (items s). key x \<noteq> key r}"
    and distinct_pluck: "distinct (map key (items s)) \<Longrightarrow> distinct (map key (items (pluck r s)))"
    and set_pluck: "distinct (map key (items s)) \<Longrightarrow>
      set (items (pluck r s)) = {x \<in> set (items s). key x \<noteq> key r}"
begin

lemma lookup_add:
  assumes "distinct (map key (items s))"
  shows "lookup_key key (items (add r s)) = (lookup_key key (items s))(key r \<mapsto> r)"
  using assms
  by (intro lookup_key_eqI) (auto simp: distinct_add set_add lookup_key_Some_iff split: if_splits)

lemma lookup_pluck:
  assumes "distinct (map key (items s))"
  shows "lookup_key key (items (pluck r s)) = (lookup_key key (items s))(key r := None)"
  using assms
  by (intro lookup_key_eqI)
    (auto simp: distinct_pluck set_pluck lookup_key_Some_iff split: if_splits)

lemma distinct_apply_change:
  "distinct (map key (items s)) \<Longrightarrow> distinct (map key (items (apply_change add pluck c s)))"
  by (cases c) (auto intro: distinct_add distinct_pluck)

lemma lookup_apply_change:
  "distinct (map key (items s)) \<Longrightarrow>
     lookup_key key (items (apply_change add pluck c s)) = store_change key c (lookup_key key (items s))"
  by (cases c) (auto simp: lookup_add lookup_pluck)

text \<open>The refinement: a sequence of changes on the store is the same sequence on the map.\<close>

lemma fold_changes:
  assumes "distinct (map key (items s))"
  shows "distinct (map key (items (fold (apply_change add pluck) cs s)))"
    and "lookup_key key (items (fold (apply_change add pluck) cs s))
           = fold (store_change key) cs (lookup_key key (items s))"
  using assms
  by (induction cs arbitrary: s) (simp_all add: distinct_apply_change lookup_apply_change)

end

section \<open>The store implements the contract\<close>

abbreviation uid_distinct :: "Store \<Rightarrow> bool" where
  "uid_distinct s \<equiv> distinct (map UID (Ingresses s))"

lemma AddIngress_loop_eq:
  "AddIngress_loop ing ings u =
     (map (\<lambda>i. if UID i = UID ing then ing else i) ings, u \<and> UID ing \<notin> UID ` set ings)"
  by (induction ings arbitrary: u) auto

lemma Ingresses_AddIngress:
  "Ingresses (AddIngress ing s) =
     (if UID ing \<in> UID ` set (Ingresses s)
      then map (\<lambda>i. if UID i = UID ing then ing else i) (Ingresses s)
      else Ingresses s @ [ing])"
  by (auto simp: AddIngress_def AddIngress_loop_eq image_iff intro!: map_idI)

lemma map_UID_overwrite: "map (UID \<circ> (\<lambda>i. if UID i = UID ing then ing else i)) ings = map UID ings"
  by (induction ings) auto

lemma AddIngress_distinct: "uid_distinct s \<Longrightarrow> uid_distinct (AddIngress ing s)"
  by (auto simp: Ingresses_AddIngress map_UID_overwrite)

lemma set_AddIngress:
  "set (Ingresses (AddIngress ing s)) = insert ing {x \<in> set (Ingresses s). UID x \<noteq> UID ing}"
  by (auto simp: Ingresses_AddIngress image_iff)

lemma PluckIngress_loop_first:
  "UID x = uid \<Longrightarrow> uid \<notin> UID ` set ys \<Longrightarrow>
     PluckIngress_loop uid (ys @ x # zs) i = Some (i + length ys)"
  by (induction ys arbitrary: i) auto

lemma PluckIngress_loop_None:
  "PluckIngress_loop uid xs i = None \<longleftrightarrow> uid \<notin> UID ` set xs"
  by (induction xs arbitrary: i) auto

text \<open>Swapping with the last entry and shortening removes one entry.\<close>

lemma swap_last_take:
  assumes "xs = ys @ x # zs" and "n = length xs - 1" and "k = length ys"
  shows "mset (take n (xs[n := xs ! k, k := xs ! n])) = mset ys + mset zs"
proof (cases zs rule: rev_cases)
  case Nil
  with assms show ?thesis by simp
next
  case (snoc ws w)
  with assms have "xs[n := xs ! k, k := xs ! n] = ys @ w # ws @ [x]"
    by (simp add: list_update_append nth_append)
  with assms snoc show ?thesis by simp
qed

lemma mset_PluckIngress:
  assumes "Ingresses s = ys @ x # zs" and "UID x = UID ing" and "UID ing \<notin> UID ` set ys"
  shows "mset (Ingresses (PluckIngress ing s)) = mset ys + mset zs"
proof -
  have "PluckIngress_loop (UID ing) (Ingresses s) 0 = Some (length ys)"
    using assms by (simp add: PluckIngress_loop_first)
  then show ?thesis
    using swap_last_take [OF assms(1) refl refl] by (simp add: PluckIngress_def Let_def)
qed

lemma PluckIngress_absent:
  "UID ing \<notin> UID ` set (Ingresses s) \<Longrightarrow> PluckIngress ing s = s"
  by (simp add: PluckIngress_def PluckIngress_loop_None [THEN iffD2])

lemma PluckIngress_cases:
  obtains (absent) "UID ing \<notin> UID ` set (Ingresses s)" "PluckIngress ing s = s"
  | (present) ys x zs where "Ingresses s = ys @ x # zs" "UID x = UID ing"
      "UID ing \<notin> UID ` set ys" "mset (Ingresses (PluckIngress ing s)) = mset ys + mset zs"
proof (cases "\<exists>x \<in> set (Ingresses s). UID x = UID ing")
  case False
  then have "UID ing \<notin> UID ` set (Ingresses s)" by auto
  then show ?thesis using absent PluckIngress_absent by blast
next
  case True
  then obtain ys x zs where first: "Ingresses s = ys @ x # zs" "UID x = UID ing"
    "\<forall>y \<in> set ys. UID y \<noteq> UID ing"
    using split_list_first_prop [of "Ingresses s" "\<lambda>x. UID x = UID ing"] by blast
  then have none: "UID ing \<notin> UID ` set ys" by auto
  show ?thesis
    by (rule present [OF first(1,2) none mset_PluckIngress [OF first(1,2) none]])
qed

lemma PluckIngress_distinct: "uid_distinct s \<Longrightarrow> uid_distinct (PluckIngress ing s)"
proof (cases ing s rule: PluckIngress_cases)
  case (present ys x zs)
  moreover assume "uid_distinct s"
  ultimately have "distinct (map UID (ys @ zs))" by auto
  with present(4) show ?thesis
    by (metis mset_append mset_eq_imp_distinct_iff mset_map)
qed simp

lemma set_PluckIngress:
  "uid_distinct s \<Longrightarrow>
     set (Ingresses (PluckIngress ing s)) = {x \<in> set (Ingresses s). UID x \<noteq> UID ing}"
proof (cases ing s rule: PluckIngress_cases)
  case absent
  then show ?thesis by (auto simp: image_iff)
next
  case (present ys x zs)
  moreover assume "uid_distinct s"
  moreover have "set (Ingresses (PluckIngress ing s)) = set ys \<union> set zs"
    using present(4) by (metis mset_append set_append set_mset_mset)
  ultimately show ?thesis by (auto simp: image_iff)
qed

interpretation ingress_store: resource_store AddIngress PluckIngress Ingresses UID
  by unfold_locales
    (simp_all add: AddIngress_distinct set_AddIngress PluckIngress_distinct set_PluckIngress)

text \<open>
  C6. From a new store, any sequence of \<open>AddIngress\<close> and \<open>PluckIngress\<close> calls leaves a slice in
  which every UID occurs once and which, read as a map from UIDs to ingresses, is the map that the
  same sequence of insertions and deletions builds: an ingress is found with the value it was last
  added with, and a plucked one is gone, whatever the order in which the swaps left the slice.
\<close>

theorem store_refines_map:
  "distinct (map UID (Ingresses
       (fold (apply_change AddIngress PluckIngress) cs (NewStore opts ns pod)))) \<and>
   lookup_key UID (Ingresses
       (fold (apply_change AddIngress PluckIngress) cs (NewStore opts ns pod)))
     = fold (store_change UID) cs Map.empty"
proof -
  have "uid_distinct (NewStore opts ns pod)"
    and "lookup_key UID (Ingresses (NewStore opts ns pod)) = Map.empty"
    by (auto simp: NewStore_def lookup_key_def)
  then show ?thesis
    using ingress_store.fold_changes [of "NewStore opts ns pod" cs] by simp
qed

text \<open>Only the slice of ingresses changes.\<close>

lemma AddIngress_frame:
  "AddIngress ing s = s\<lparr>Ingresses := Ingresses (AddIngress ing s)\<rparr>"
  by (simp add: AddIngress_def split: prod.split)

lemma PluckIngress_frame:
  "PluckIngress ing s = s\<lparr>Ingresses := Ingresses (PluckIngress ing s)\<rparr>"
  by (simp add: PluckIngress_def Let_def split: option.split)

end
