(* ===== verification/Converter.thy ===== *)
theory Converter
  imports Stable_Sort Go_Strings Resource_Store "HOL-Library.Product_Lexorder"
begin

text \<open>
  The package \<open>pkg/converter\<close>: the Caddy configuration the program builds, with its accessors, and
  the registry of plugins with the order they run in.

  JSON that the program stores in a configuration (\<open>json.RawMessage\<close>) is represented by the value
  it encodes: \<open>RawObject\<close> is a literal object of the source, \<open>RawString\<close> and \<open>RawStrings\<close> are what
  \<open>caddyconfig.JSON\<close> makes of a string and of a list of strings, and \<open>RawModule key name v\<close> is
  \<open>caddyconfig.JSONModuleObject(v, key, name, nil)\<close>, the object of \<open>v\<close> with the module's name
  under \<open>key\<close>. Pointers into the configuration become an accessor and an update function.

  The comparison of \<open>sortPlugins\<close> interprets \<open>keyed_total_order\<close>, from which follow the order of
  the plugins and its independence of the iteration order of the registry, a Go map.
\<close>

section \<open>The Caddy configuration\<close>

datatype raw_message =
    RawObject "(string \<times> string) list"
  | RawString string
  | RawStrings "string list"
  | RawModule string string module_value
and module_value =
    Rewrite string string
  | StaticResponse string "(string \<times> string list) list"
  | HTTPTransport "bool option"
  | ReverseProxy raw_message "string list" "string list"
  | ACMEIssuer string string "(string \<times> string) option"

type_synonym module_map = "string \<rightharpoonup> raw_message"

record Route =
  HandlersRaw :: "raw_message list"
  MatcherSetsRaw :: "module_map list"

record AutoHTTPSConfig =
  Disabled :: bool
  SkipCerts :: "string list"

record Server =
  Listen :: "string list"
  ListenerWrappersRaw :: "raw_message list"
  Routes :: "Route list"
  TLSConnPolicies :: nat
  AutoHTTPS :: "AutoHTTPSConfig option"

record AutomationPolicy =
  IssuersRaw :: "raw_message list"
  OnDemandPolicy :: bool

record AutomationConfig =
  OnDemandConfig :: "string option"
  AutomationOCSPCheckInterval :: int
  Policies :: "AutomationPolicy list"

record TLSApp =
  CertificatesRaw :: module_map
  Automation :: "AutomationConfig option"

datatype app = AppTLS TLSApp | AppHTTP "string \<rightharpoonup> Server"

record StorageConfig =
  System :: string
  StorageNamespace :: string
  StorageLeaseID :: string

record Config =
  StorageOf :: StorageConfig
  Apps :: "string \<rightharpoonup> app"
  Logging :: "string \<rightharpoonup> string"

definition HTTPServer :: string where
  "HTTPServer = ''ingress_server''"

definition MetricsServer :: string where
  "MetricsServer = ''metrics_server''"

text \<open>
  \<open>c.Apps["http"].(*caddyhttp.App).Servers[name]\<close>: the type assertion panics when the entry is
  missing or another app; a missing server is a nil pointer.
\<close>

definition get_server :: "string \<Rightarrow> Config \<Rightarrow> Server option result" where
  "get_server name c =
     (case Apps c ''http'' of
        Some (AppHTTP servers) \<Rightarrow> Ok (servers name)
      | _ \<Rightarrow> Panic TypeAssertion)"

definition GetHTTPServer :: "Config \<Rightarrow> Server option result" where
  "GetHTTPServer c = get_server HTTPServer c"

definition GetMetricsServer :: "Config \<Rightarrow> Server option result" where
  "GetMetricsServer c = get_server MetricsServer c"

definition GetTLSApp :: "Config \<Rightarrow> TLSApp result" where
  "GetTLSApp c =
     (case Apps c ''tls'' of
        Some (AppTLS tls) \<Rightarrow> Ok tls
      | _ \<Rightarrow> Panic TypeAssertion)"

text \<open>Writing through the pointers the accessors return.\<close>

definition set_server :: "string \<Rightarrow> Server \<Rightarrow> Config \<Rightarrow> Config" where
  "set_server name srv c =
     (case Apps c ''http'' of
        Some (AppHTTP servers) \<Rightarrow> c\<lparr>Apps := (Apps c)(''http'' \<mapsto> AppHTTP (servers(name \<mapsto> srv)))\<rparr>
      | _ \<Rightarrow> c)"

definition set_tls :: "TLSApp \<Rightarrow> Config \<Rightarrow> Config" where
  "set_tls tls c = c\<lparr>Apps := (Apps c)(''tls'' \<mapsto> AppTLS tls)\<rparr>"

definition default_http_server :: Server where
  "default_http_server =
     \<lparr>Listen = ['':80'', '':443''], ListenerWrappersRaw = [], Routes = [], TLSConnPolicies = 1,
      AutoHTTPS = Some \<lparr>Disabled = False, SkipCerts = []\<rparr>\<rparr>"

definition default_metrics_server :: Server where
  "default_metrics_server =
     \<lparr>Listen = ['':9765''], ListenerWrappersRaw = [], Routes = [], TLSConnPolicies = 0,
      AutoHTTPS = Some \<lparr>Disabled = True, SkipCerts = []\<rparr>\<rparr>"

definition NewConfig :: Config where
  "NewConfig =
     \<lparr>StorageOf = \<lparr>System = [], StorageNamespace = [], StorageLeaseID = []\<rparr>,
      Apps = [''tls'' \<mapsto> AppTLS \<lparr>CertificatesRaw = Map.empty, Automation = None\<rparr>,
              ''http'' \<mapsto> AppHTTP [HTTPServer \<mapsto> default_http_server,
                                 MetricsServer \<mapsto> default_metrics_server]],
      Logging = Map.empty\<rparr>"

text \<open>
  What \<open>NewConfig\<close> sets up and every plugin relies on: a TLS app and an HTTP app with the two
  servers, each with its automatic HTTPS settings. On such a configuration no accessor panics.
\<close>

definition wf_config :: "Config \<Rightarrow> bool" where
  "wf_config c \<longleftrightarrow>
     (\<exists>tls servers hs ms.
        Apps c ''tls'' = Some (AppTLS tls) \<and> Apps c ''http'' = Some (AppHTTP servers) \<and>
        servers HTTPServer = Some hs \<and> AutoHTTPS hs \<noteq> None \<and>
        servers MetricsServer = Some ms \<and> AutoHTTPS ms \<noteq> None)"

lemma server_names_differ [simp]: "HTTPServer \<noteq> MetricsServer" "MetricsServer \<noteq> HTTPServer"
  by (simp_all add: HTTPServer_def MetricsServer_def)

lemma wf_NewConfig: "wf_config NewConfig"
  by (simp add: wf_config_def NewConfig_def default_http_server_def default_metrics_server_def)

lemma wf_config_GetHTTPServer:
  "wf_config c \<Longrightarrow> \<exists>srv a. GetHTTPServer c = Ok (Some srv) \<and> AutoHTTPS srv = Some a"
  by (auto simp: wf_config_def GetHTTPServer_def get_server_def)

lemma wf_config_GetMetricsServer:
  "wf_config c \<Longrightarrow> \<exists>srv a. GetMetricsServer c = Ok (Some srv) \<and> AutoHTTPS srv = Some a"
  by (auto simp: wf_config_def GetMetricsServer_def get_server_def)

lemma wf_config_GetTLSApp: "wf_config c \<Longrightarrow> \<exists>tls. GetTLSApp c = Ok tls"
  by (auto simp: wf_config_def GetTLSApp_def)

lemma wf_set_server:
  "wf_config c \<Longrightarrow> AutoHTTPS srv \<noteq> None \<Longrightarrow> wf_config (set_server name srv c)"
  by (auto simp: wf_config_def set_server_def)

lemma wf_set_tls: "wf_config c \<Longrightarrow> wf_config (set_tls tls c)"
  by (auto simp: wf_config_def set_tls_def)

lemma wf_config_Logging [simp]: "wf_config (c\<lparr>Logging := l\<rparr>) \<longleftrightarrow> wf_config c"
  by (simp add: wf_config_def)

lemma wf_config_StorageOf [simp]: "wf_config (c\<lparr>StorageOf := st\<rparr>) \<longleftrightarrow> wf_config c"
  by (simp add: wf_config_def)

lemmas wf_config_intros = wf_set_server wf_set_tls

text \<open>Reading back what was written: each accessor sees its own update and no other.\<close>

lemma GetTLSApp_set_tls [simp]: "GetTLSApp (set_tls tls c) = Ok tls"
  by (simp add: GetTLSApp_def set_tls_def)

lemma GetTLSApp_set_server [simp]: "GetTLSApp (set_server name srv c) = GetTLSApp c"
  by (simp add: GetTLSApp_def set_server_def split: option.split app.split)

lemma get_server_set_tls [simp]: "get_server name (set_tls tls c) = get_server name c"
  by (simp add: get_server_def set_tls_def)

lemma get_server_set_server:
  "wf_config c \<Longrightarrow> get_server n (set_server name srv c) =
     (if n = name then Ok (Some srv) else get_server n c)"
  by (auto simp: wf_config_def get_server_def set_server_def)

lemma get_server_fields [simp]:
  "get_server n (c\<lparr>Logging := l\<rparr>) = get_server n c"
  "get_server n (c\<lparr>StorageOf := st\<rparr>) = get_server n c"
  by (simp_all add: get_server_def)

lemma StorageOf_frame [simp]:
  "StorageOf (set_tls tls c) = StorageOf c" "StorageOf (set_server name srv c) = StorageOf c"
  by (simp_all add: set_tls_def set_server_def split: option.split app.split)

lemma Logging_frame [simp]:
  "Logging (set_tls tls c) = Logging c" "Logging (set_server name srv c) = Logging c"
  by (simp_all add: set_tls_def set_server_def split: option.split app.split)

section \<open>The plugin registry\<close>

record 'p PluginInfo =
  PluginName :: string
  Priority :: int
  New :: 'p

record 'p registry =
  plugins :: "(string \<times> 'p PluginInfo) list"
  pluginInstances :: "(string \<times> 'p) list"

definition empty_registry :: "'p registry" where
  "empty_registry = \<lparr>plugins = [], pluginInstances = []\<rparr>"

definition RegisterPlugin :: "'p PluginInfo \<Rightarrow> 'p registry \<Rightarrow> 'p registry result" where
  "RegisterPlugin plugin reg =
     (case map_of (plugins reg) (PluginName plugin) of
        Some _ \<Rightarrow> Panic (PluginAlreadyRegistered (PluginName plugin))
      | None \<Rightarrow>
          Ok (reg\<lparr>plugins := (PluginName plugin, plugin) # plugins reg,
                  pluginInstances := (PluginName plugin, New plugin) # pluginInstances reg\<rparr>))"

fun getOrderIndex_loop :: "string list \<Rightarrow> string \<Rightarrow> int \<Rightarrow> int" where
  "getOrderIndex_loop [] plugin idx = -1"
| "getOrderIndex_loop (o' # order) plugin idx =
     (if plugin = o' then idx else getOrderIndex_loop order plugin (idx + 1))"

definition getOrderIndex :: "string list \<Rightarrow> string \<Rightarrow> int" where
  "getOrderIndex order plugin = getOrderIndex_loop order plugin 0"

text \<open>The comparison \<open>sortPlugins\<close> gives to \<open>sort.SliceStable\<close>.\<close>

definition plugin_less :: "string list \<Rightarrow> 'p PluginInfo \<Rightarrow> 'p PluginInfo \<Rightarrow> bool" where
  "plugin_less order iPlugin jPlugin =
     (let iSortedIdx = getOrderIndex order (PluginName iPlugin);
          jSortedIdx = getOrderIndex order (PluginName jPlugin)
      in if iSortedIdx \<noteq> jSortedIdx then iSortedIdx > jSortedIdx
         else if Priority iPlugin \<noteq> Priority jPlugin then Priority iPlugin > Priority jPlugin
         else PluginName iPlugin < PluginName jPlugin)"

definition sortPlugins :: "'p PluginInfo list \<Rightarrow> string list \<Rightarrow> 'p PluginInfo list" where
  "sortPlugins infos order = slice_stable (plugin_less order) infos"

text \<open>
  \<open>Plugins\<close>: \<open>iter\<close> is the order in which \<open>range plugins\<close> visits the map, which Go leaves open.
  A name without an instance gives a nil interface, \<open>None\<close>.
\<close>

definition Plugins ::
  "('p PluginInfo list \<Rightarrow> 'p PluginInfo list) \<Rightarrow> 'p registry \<Rightarrow> string list \<Rightarrow> 'p option list" where
  "Plugins iter reg order =
     map (\<lambda>p. map_of (pluginInstances reg) (PluginName p))
       (sortPlugins (iter (map snd (plugins reg))) order)"

subsection \<open>The comparison is a total order on plugin names\<close>

definition plugin_rank :: "string list \<Rightarrow> 'p PluginInfo \<Rightarrow> int \<times> int \<times> string" where
  "plugin_rank order p = (- getOrderIndex order (PluginName p), - Priority p, PluginName p)"

lemma plugin_less_rank: "plugin_less order p q \<longleftrightarrow> plugin_rank order p < plugin_rank order q"
  by (auto simp: plugin_less_def plugin_rank_def Let_def less_prod_def)

interpretation plugin_order: keyed_total_order "plugin_less order" PluginName for order
proof -
  have "strict_weak_order (plugin_less order :: 'p PluginInfo \<Rightarrow> _)" for order
    by (rule strict_weak_order_rank [of _ "plugin_rank order"]) (rule plugin_less_rank)
  then show "keyed_total_order (plugin_less order :: 'p PluginInfo \<Rightarrow> _) PluginName" for order
    by (rule keyed_total_order.intro, unfold_locales)
      (auto simp: plugin_less_rank plugin_rank_def not_less le_less)
qed

subsection \<open>Registering plugins\<close>

text \<open>The registry after registering a list of plugins, the last one first.\<close>

definition registry_of :: "'p PluginInfo list \<Rightarrow> 'p registry" where
  "registry_of infos =
     \<lparr>plugins = rev (map (\<lambda>p. (PluginName p, p)) infos),
      pluginInstances = rev (map (\<lambda>p. (PluginName p, New p)) infos)\<rparr>"

lemma RegisterPlugin_registry_of:
  "RegisterPlugin p (registry_of infos) =
     (if PluginName p \<in> PluginName ` set infos
      then Panic (PluginAlreadyRegistered (PluginName p)) else Ok (registry_of (infos @ [p])))"
proof -
  have "map_of (rev (map (\<lambda>p. (PluginName p, p)) infos)) (PluginName p) = None \<longleftrightarrow>
      PluginName p \<notin> PluginName ` set infos"
    by (force simp: map_of_eq_None_iff)
  then show ?thesis
    by (cases "map_of (rev (map (\<lambda>p. (PluginName p, p)) infos)) (PluginName p)")
      (simp_all add: RegisterPlugin_def registry_of_def)
qed

lemma register_all:
  "distinct (map PluginName done) \<Longrightarrow>
     range_loop RegisterPlugin infos (registry_of done) = Ok reg \<longleftrightarrow>
       distinct (map PluginName (done @ infos)) \<and> reg = registry_of (done @ infos)"
proof (induction infos arbitrary: "done")
  case Nil
  then show ?case by auto
next
  case (Cons p infos)
  show ?case
  proof (cases "PluginName p \<in> PluginName ` set done")
    case True
    then show ?thesis by (auto simp: RegisterPlugin_registry_of)
  next
    case False
    with Cons.prems Cons.IH [of "done @ [p]"] show ?thesis
      by (simp add: RegisterPlugin_registry_of)
  qed
qed

lemma empty_registry_eq: "empty_registry = registry_of []"
  by (simp add: empty_registry_def registry_of_def)

lemma register_all_Ok:
  "range_loop RegisterPlugin infos empty_registry = Ok reg \<longleftrightarrow>
     distinct (map PluginName infos) \<and> reg = registry_of infos"
  using register_all [of "[]"] by (simp add: empty_registry_eq)

lemma instance_registry_of:
  assumes "distinct (map PluginName infos)" and "p \<in> set infos"
  shows "map_of (pluginInstances (registry_of infos)) (PluginName p) = Some (New p)"
proof (rule map_of_is_SomeI)
  show "distinct (map fst (pluginInstances (registry_of infos)))"
    using assms(1) by (simp add: registry_of_def rev_map [symmetric] comp_def)
  show "(PluginName p, New p) \<in> set (pluginInstances (registry_of infos))"
    using assms(2) by (auto simp: registry_of_def)
qed

lemma mset_registry_of: "mset (map snd (plugins (registry_of infos))) = mset infos"
  by (simp add: registry_of_def rev_map comp_def)

text \<open>
  C27. \<open>Plugins\<close> is deterministic although it ranges over a Go map: once every plugin is
  registered, whatever order the iteration visits the registry in, the result is the list of the
  registered plugins' instances in the order of \<open>sortPlugins\<close>, none of them nil.
\<close>

theorem Plugins_iteration_independent:
  assumes "range_loop RegisterPlugin infos empty_registry = Ok reg"
    and "mset (iter (map snd (plugins reg))) = mset (map snd (plugins reg))"
  shows "Plugins iter reg order = map (\<lambda>p. Some (New p)) (sortPlugins infos order)"
proof -
  from assms(1) have d: "distinct (map PluginName infos)" and reg: "reg = registry_of infos"
    by (simp_all add: register_all_Ok)
  have same: "mset (iter (map snd (plugins reg))) = mset infos"
    using assms(2) mset_registry_of reg by metis
  then have "sortPlugins (iter (map snd (plugins reg))) order = sortPlugins infos order"
    unfolding sortPlugins_def using d
    by (intro plugin_order.slice_stable_input_order)
      (auto, metis mset_eq_imp_distinct_iff mset_map)
  then show ?thesis
    using reg instance_registry_of [OF d] by (simp add: Plugins_def sortPlugins_def)
qed

theorem Plugins_iteration_independent_witness:
  "Plugins rev (registry_of [\<lparr>PluginName = ''b'', Priority = 0, New = True\<rparr>,
       \<lparr>PluginName = ''a'', Priority = 0, New = False\<rparr>]) [] = [Some False, Some True]"
proof -
  have "Plugins rev (registry_of [\<lparr>PluginName = ''b'', Priority = 0, New = True\<rparr>,
       \<lparr>PluginName = ''a'', Priority = 0, New = False\<rparr>]) [] =
     map (\<lambda>p. Some (New p)) (sortPlugins [\<lparr>PluginName = ''b'', Priority = 0, New = True\<rparr>,
       \<lparr>PluginName = ''a'', Priority = 0, New = False\<rparr>] [])"
    by (rule Plugins_iteration_independent [OF register_all_Ok [THEN iffD2]]) simp_all
  then show ?thesis
    by (simp add: sortPlugins_def plugin_less_def getOrderIndex_def)
qed

text \<open>
  Registration is all or nothing per name: registering a list of plugins succeeds exactly when
  their names are distinct; otherwise it stops with the panic of the first repeated name.
\<close>

lemma RegisterPlugin_unique_names:
  "is_Ok (range_loop RegisterPlugin infos empty_registry) \<longleftrightarrow> distinct (map PluginName infos)"
  by (auto simp: is_Ok_iff register_all_Ok)

subsection \<open>The order of the plugins\<close>

lemma getOrderIndex_loop_notin: "plugin \<notin> set order \<Longrightarrow> getOrderIndex_loop order plugin idx = -1"
  by (induction order arbitrary: idx) auto

lemma getOrderIndex_loop_nth:
  "distinct order \<Longrightarrow> k < length order \<Longrightarrow>
     getOrderIndex_loop order (order ! k) idx = idx + int k"
proof (induction order arbitrary: k idx)
  case Nil
  then show ?case by simp
next
  case (Cons a order)
  then show ?case by (cases k) auto
qed

lemma getOrderIndex_notin [simp]: "plugin \<notin> set order \<Longrightarrow> getOrderIndex order plugin = -1"
  by (simp add: getOrderIndex_def getOrderIndex_loop_notin)

lemma getOrderIndex_nth:
  "distinct order \<Longrightarrow> k < length order \<Longrightarrow> getOrderIndex order (order ! k) = int k"
  by (simp add: getOrderIndex_def getOrderIndex_loop_nth)

lemma map_getOrderIndex:
  "distinct order \<Longrightarrow> map (getOrderIndex order) order = map int [0..<length order]"
  by (rule nth_equalityI) (simp_all add: getOrderIndex_nth)

text \<open>
  C28. The order \<open>sortPlugins\<close> establishes between any two plugins, the earlier first: the index in
  the order slice decides, a larger index first, and a plugin outside the slice (index \<open>-1\<close>) after
  every plugin in it; at equal index the larger priority is first; at equal priority the smaller
  name. And the sorted list holds exactly the plugins given.
\<close>

theorem sortPlugins_order:
  "mset (sortPlugins infos order) = mset infos \<and>
   sorted_wrt (\<lambda>p q.
     getOrderIndex order (PluginName q) < getOrderIndex order (PluginName p) \<or>
     getOrderIndex order (PluginName q) = getOrderIndex order (PluginName p) \<and>
       (Priority q < Priority p \<or> Priority q = Priority p \<and> PluginName p \<le> PluginName q))
     (sortPlugins infos order)"
proof
  show "mset (sortPlugins infos order) = mset infos"
    by (simp add: sortPlugins_def)
  have "ranked (plugin_less order) (sortPlugins infos order)"
    unfolding sortPlugins_def by (rule plugin_order.ranked_slice_stable)
  then show "sorted_wrt (\<lambda>p q.
     getOrderIndex order (PluginName q) < getOrderIndex order (PluginName p) \<or>
     getOrderIndex order (PluginName q) = getOrderIndex order (PluginName p) \<and>
       (Priority q < Priority p \<or> Priority q = Priority p \<and> PluginName p \<le> PluginName q))
     (sortPlugins infos order)"
    by (rule sorted_wrt_mono_rel [rotated])
      (auto simp: plugin_less_def Let_def split: if_splits)
qed

text \<open>
  C40. The plugins named in the order slice run in the reverse of its order: when the slice names
  exactly the given plugins, the sorted names are the slice reversed. (The comment of \<open>Plugins\<close>
  says they go in the order specified in the slice.)
\<close>

theorem sortPlugins_reverses_order:
  assumes "distinct order" and "mset (map PluginName infos) = mset order"
  shows "map PluginName (sortPlugins infos order) = rev order"
proof -
  let ?names = "map PluginName (sortPlugins infos order)"
  let ?idx = "getOrderIndex order"
  have perm: "mset ?names = mset order"
    using assms(2) by (simp add: sortPlugins_def)
  then have set_eq: "set ?names = set order"
    by (metis set_mset_mset)
  have inj: "inj_on ?idx (set order)"
    using distinct_map [of ?idx order] by (simp add: map_getOrderIndex [OF assms(1)] distinct_map)
  have "ranked (plugin_less order) (sortPlugins infos order)"
    unfolding sortPlugins_def by (rule plugin_order.ranked_slice_stable)
  then have "sorted_wrt (\<lambda>p q. ?idx (PluginName q) \<le> ?idx (PluginName p)) (sortPlugins infos order)"
    by (rule sorted_wrt_mono_rel [rotated]) (auto simp: plugin_less_def Let_def split: if_splits)
  then have "sorted (rev (map ?idx ?names))"
    by (simp add: sorted_wrt_rev sorted_wrt_map)
  then have "sorted (map ?idx (rev ?names))"
    by (simp add: rev_map)
  moreover have "sorted (map ?idx order)"
    using assms(1) by (simp add: map_getOrderIndex sorted_map sorted_wrt_upt)
  moreover have "mset (map ?idx (rev ?names)) = mset (map ?idx order)"
    using perm by (metis mset_map mset_rev)
  ultimately have "map ?idx (rev ?names) = map ?idx order"
    using properties_for_sort [of "map ?idx (rev ?names)"] properties_for_sort [of "map ?idx order"]
    by metis
  then have "rev ?names = order"
    by (rule map_inj_on) (use inj set_eq in simp)
  then show ?thesis by (simp add: rev_swap)
qed

theorem sortPlugins_reverses_order_witness:
  "map PluginName (sortPlugins [\<lparr>PluginName = ''a'', Priority = 0, New = ()\<rparr>,
       \<lparr>PluginName = ''b'', Priority = 0, New = ()\<rparr>] [''a'', ''b'']) = [''b'', ''a'']"
  using sortPlugins_reverses_order [of "[''a'', ''b'']"
      "[\<lparr>PluginName = ''a'', Priority = 0, New = ()\<rparr>, \<lparr>PluginName = ''b'', Priority = 0, New = ()\<rparr>]"]
  by simp

end
