(* ===== verification/Netip.thy ===== *)
theory Netip
  imports Go_Strings
begin

text \<open>
  IP addresses and prefixes, as Go's standard packages \<open>net/netip\<close> and \<open>net\<close> parse and print
  them: \<open>parseTrustedProxies\<close> parses every entry of an annotation with them and
  \<open>sliceToLoadBalancerIngress\<close> tells addresses from host names. An IPv4 address is a list of four
  octets, an IPv6 address a list of eight 16-bit groups and a zone (empty for none). The parsers
  return \<open>None\<close> where the Go functions return an error; the program drops the error's text.
\<close>

section \<open>Addresses\<close>

datatype Addr = IPv4 "nat list" | IPv6 "nat list" string

fun wf_addr :: "Addr \<Rightarrow> bool" where
  "wf_addr (IPv4 os) = (length os = 4 \<and> list_all (\<lambda>b. b < 256) os)"
| "wf_addr (IPv6 gs z) = (length gs = 8 \<and> list_all (\<lambda>g. g < 65536) gs)"

fun BitLen :: "Addr \<Rightarrow> nat" where
  "BitLen (IPv4 os) = 32"
| "BitLen (IPv6 gs z) = 128"

fun Zone :: "Addr \<Rightarrow> string" where
  "Zone (IPv4 os) = []"
| "Zone (IPv6 gs z) = z"

fun withoutZone :: "Addr \<Rightarrow> Addr" where
  "withoutZone (IPv4 os) = IPv4 os"
| "withoutZone (IPv6 gs z) = IPv6 gs []"

subsection \<open>Parsing\<close>

definition parse_octet :: "string \<Rightarrow> nat option" where
  "parse_octet s =
     (if s \<noteq> [] \<and> list_all is_digit s \<and> (length s = 1 \<or> hd s \<noteq> CHR ''0'') \<and> digits_val 0 s < 256
      then Some (digits_val 0 s) else None)"

fun parse_octets :: "string list \<Rightarrow> nat list option" where
  "parse_octets [] = Some []"
| "parse_octets (f # fs) =
     (case parse_octet f of
        None \<Rightarrow> None
      | Some b \<Rightarrow> map_option ((#) b) (parse_octets fs))"

definition parseIPv4Fields :: "string \<Rightarrow> nat list option" where
  "parseIPv4Fields s =
     (let fields = Split CHR ''.'' s in if length fields = 4 then parse_octets fields else None)"

definition hex_val :: "char \<Rightarrow> nat" where
  "hex_val c =
     (if is_digit c then of_char c - 48
      else if CHR ''a'' \<le> c \<and> c \<le> CHR ''f'' then of_char c - 87
      else of_char c - 55)"

definition is_hex :: "char \<Rightarrow> bool" where
  "is_hex c \<longleftrightarrow> is_digit c \<or> (CHR ''a'' \<le> c \<and> c \<le> CHR ''f'') \<or> (CHR ''A'' \<le> c \<and> c \<le> CHR ''F'')"

fun hexes_val :: "nat \<Rightarrow> string \<Rightarrow> nat" where
  "hexes_val acc [] = acc"
| "hexes_val acc (c # s) = hexes_val (16 * acc + hex_val c) s"

text \<open>
  The loop of \<open>parseIPv6\<close>: the number of groups still free, the rest of the string, the groups
  read so far and the position of the ellipsis. The result is the state after the loop.
\<close>

fun parseIPv6_loop ::
  "nat \<Rightarrow> string \<Rightarrow> nat list \<Rightarrow> nat option \<Rightarrow> (string \<times> nat list \<times> nat option) option" where
  "parseIPv6_loop 0 s gs ellipsis = Some (s, gs, ellipsis)"
| "parseIPv6_loop (Suc free) s gs ellipsis =
     (let hex = takeWhile is_hex s; rest = dropWhile is_hex s; gs' = gs @ [hexes_val 0 hex]
      in if hex = [] \<or> length hex > 4 then None
         else case rest of
           [] \<Rightarrow> Some ([], gs', ellipsis)
         | c # rest' \<Rightarrow>
             if c = CHR ''.'' then
               (if ellipsis = None \<and> length gs \<noteq> 6 then None
                else if length gs + 2 > 8 then None
                else case parseIPv4Fields s of
                  Some [a, b, c, d] \<Rightarrow> Some ([], gs @ [256 * a + b, 256 * c + d], ellipsis)
                | _ \<Rightarrow> None)
             else if c \<noteq> CHR '':'' then None
             else case rest' of
               [] \<Rightarrow> None
             | d # rest'' \<Rightarrow>
                 if d = CHR '':'' then
                   (if ellipsis \<noteq> None then None
                    else if rest'' = [] then Some ([], gs', Some (length gs'))
                    else parseIPv6_loop free rest'' gs' (Some (length gs')))
                 else parseIPv6_loop free rest' gs' ellipsis)"

definition parseIPv6_groups :: "string \<Rightarrow> nat list option" where
  "parseIPv6_groups s =
     (let leading = (take 2 s = ''::''); t = (if leading then drop 2 s else s)
      in if leading \<and> t = [] then Some (replicate 8 0)
         else case parseIPv6_loop 8 t [] (if leading then Some 0 else None) of
           None \<Rightarrow> None
         | Some (rest, gs, ellipsis) \<Rightarrow>
             if rest \<noteq> [] then None
             else if length gs < 8
               then map_option (\<lambda>e. take e gs @ replicate (8 - length gs) 0 @ drop e gs) ellipsis
             else if ellipsis = None then Some gs else None)"

definition parseIPv6 :: "string \<Rightarrow> Addr option" where
  "parseIPv6 inp =
     (let s = takeWhile (\<lambda>c. c \<noteq> CHR ''%'') inp; marked = dropWhile (\<lambda>c. c \<noteq> CHR ''%'') inp;
          zone = tl marked
      in if marked \<noteq> [] \<and> zone = [] then None
         else map_option (\<lambda>gs. IPv6 gs zone) (parseIPv6_groups s))"

text \<open>\<open>ParseAddr\<close> lets the first of the characters \<open>.\<close>, \<open>:\<close> and \<open>%\<close> decide.\<close>

definition ParseAddr :: "string \<Rightarrow> Addr option" where
  "ParseAddr s =
     (case dropWhile (\<lambda>c. c \<notin> {CHR ''.'', CHR '':'', CHR ''%''}) s of
        [] \<Rightarrow> None
      | c # _ \<Rightarrow>
          if c = CHR ''.'' then map_option IPv4 (parseIPv4Fields s)
          else if c = CHR '':'' then parseIPv6 s
          else None)"

text \<open>\<open>net.ParseIP(s) != nil\<close>: an address without a zone.\<close>

definition ParseIP_ok :: "string \<Rightarrow> bool" where
  "ParseIP_ok s = (case ParseAddr s of None \<Rightarrow> False | Some a \<Rightarrow> Zone a = [])"

subsection \<open>Printing\<close>

fun hex_digit :: "nat \<Rightarrow> char" where
  "hex_digit d = (if d < 10 then char_of (48 + d) else char_of (87 + d))"

fun utox :: "nat \<Rightarrow> string" where
  "utox n = (if n < 16 then [hex_digit n] else utox (n div 16) @ [hex_digit (n mod 16)])"

declare utox.simps [simp del]

text \<open>The first of the longest runs of at least two zero groups: its start and its length.\<close>

definition zero_run :: "nat list \<Rightarrow> nat \<times> nat" where
  "zero_run gs =
     fold (\<lambda>i (start, len).
         let l = length (takeWhile (\<lambda>g. g = 0) (drop i gs))
         in if 2 \<le> l \<and> len < l then (i, l) else (start, len))
       [0..<8] (255, 0)"

definition string6 :: "nat list \<Rightarrow> string" where
  "string6 gs =
     (case zero_run gs of (start, len) \<Rightarrow>
        if len = 0 then Join CHR '':'' (map utox gs)
        else Join CHR '':'' (map utox (take start gs)) @ ''::'' @
             Join CHR '':'' (map utox (drop (start + len) gs)))"

definition string4 :: "nat list \<Rightarrow> string" where
  "string4 os = Join CHR ''.'' (map utoa os)"

definition Is4In6 :: "nat list \<Rightarrow> bool" where
  "Is4In6 gs \<longleftrightarrow> take 6 gs = [0, 0, 0, 0, 0, 65535]"

fun Addr_String :: "Addr \<Rightarrow> string" where
  "Addr_String (IPv4 os) = string4 os"
| "Addr_String (IPv6 gs z) =
     (if Is4In6 gs
      then ''::ffff:'' @ string4 [gs ! 6 div 256, gs ! 6 mod 256, gs ! 7 div 256, gs ! 7 mod 256]
      else string6 gs) @ (if z = [] then [] else CHR ''%'' # z)"

section \<open>Prefixes\<close>

record IPPrefix =
  PrefixAddr :: Addr
  PrefixBits :: nat

definition PrefixFrom :: "Addr \<Rightarrow> nat \<Rightarrow> IPPrefix" where
  "PrefixFrom a bits = \<lparr>PrefixAddr = withoutZone a, PrefixBits = bits\<rparr>"

text \<open>\<open>ParsePrefix\<close>: split at the last slash; no zone; the bits without sign or leading zero.\<close>

definition ParsePrefix :: "string \<Rightarrow> IPPrefix option" where
  "ParsePrefix s =
     (if CHR ''/'' \<notin> set s then None
      else
        (let bitsStr = rev (takeWhile (\<lambda>c. c \<noteq> CHR ''/'') (rev s));
             addr = take (length s - length bitsStr - 1) s
         in case ParseAddr addr of
              None \<Rightarrow> None
            | Some a \<Rightarrow>
                if Zone a \<noteq> [] then None
                else if length bitsStr > 1 \<and> (hd bitsStr < CHR ''1'' \<or> CHR ''9'' < hd bitsStr) then None
                else case Atoi bitsStr of
                  None \<Rightarrow> None
                | Some bits \<Rightarrow>
                    if bits < 0 \<or> bits > int (BitLen a) then None
                    else Some (PrefixFrom a (nat bits))))"

definition Prefix_String :: "IPPrefix \<Rightarrow> string" where
  "Prefix_String p = Addr_String (PrefixAddr p) @ ''/'' @ utoa (PrefixBits p)"

section \<open>Parsing what was printed\<close>

lemma utoa_no_leading_zero: "0 < n \<Longrightarrow> hd (utoa n) \<noteq> CHR ''0''"
proof (induction n rule: utoa.induct)
  case (1 n)
  show ?case
  proof (cases "n < 10")
    case True
    then have "(of_char (digit_char n) :: nat) = 48 + n"
      by (simp add: digit_char_def)
    with 1 True show ?thesis by (auto simp: utoa.simps [of n])
  next
    case False
    with 1 show ?thesis using utoa_digits by (simp add: utoa.simps [of n])
  qed
qed

lemma parse_octet_utoa: "b < 256 \<Longrightarrow> parse_octet (utoa b) = Some b"
proof (cases "b = 0")
  case True
  then show ?thesis
    by (simp add: parse_octet_def utoa.simps [of 0])
next
  case False
  moreover assume "b < 256"
  ultimately show ?thesis
    using utoa_digits [of b] utoa_no_leading_zero [of b] by (simp add: parse_octet_def digits_val_utoa)
qed

lemma parse_octets_utoa:
  "list_all (\<lambda>b. b < 256) os \<Longrightarrow> parse_octets (map utoa os) = Some os"
  by (induction os) (simp_all add: parse_octet_utoa)

lemma digit_not_punctuation:
  "is_digit c \<Longrightarrow> c \<noteq> CHR ''.'' \<and> c \<noteq> CHR '':'' \<and> c \<noteq> CHR ''%'' \<and> c \<noteq> CHR ''/'' \<and>
     c \<noteq> CHR ''-'' \<and> c \<noteq> CHR ''+''"
  by (auto simp: is_digit_def less_eq_char_nat)

lemma utoa_no_punctuation:
  "c \<in> set (utoa n) \<Longrightarrow> is_digit c"
  using utoa_digits [of n] by (auto simp: list_all_iff)

lemma parseIPv4Fields_string4:
  assumes "length os = 4" and "list_all (\<lambda>b. b < 256) os"
  shows "parseIPv4Fields (string4 os) = Some os"
proof -
  have "Split CHR ''.'' (string4 os) = map utoa os"
    unfolding string4_def using assms(1)
    by (intro Split_Join) (auto dest: utoa_no_punctuation digit_not_punctuation)
  with assms show ?thesis by (simp add: parseIPv4Fields_def parse_octets_utoa)
qed

lemma string4_Cons: "os \<noteq> [] \<Longrightarrow> string4 (b # os) = utoa b @ CHR ''.'' # string4 os"
  by (cases os) (simp_all add: string4_def)

lemma ParseAddr_string4:
  assumes "wf_addr (IPv4 os)"
  shows "ParseAddr (string4 os) = Some (IPv4 os)"
proof -
  from assms obtain b bs where os: "os = b # bs" and "bs \<noteq> []"
    by (cases os) (force, fastforce)
  then have split: "string4 os = utoa b @ CHR ''.'' # string4 bs"
    by (simp add: string4_Cons)
  have "dropWhile (\<lambda>c. c \<notin> {CHR ''.'', CHR '':'', CHR ''%''}) (string4 os) = CHR ''.'' # string4 bs"
    unfolding split
    by (subst dropWhile_append2) (auto dest: utoa_no_punctuation digit_not_punctuation)
  then show ?thesis
    using assms by (simp add: ParseAddr_def parseIPv4Fields_string4)
qed

lemma Atoi_utoa: "int n < 2 ^ 63 \<Longrightarrow> Atoi (utoa n) = Some (int n)"
  using Atoi_Itoa [of "int n"] by (simp add: Itoa_def)

lemma utoa_bits_leading:
  "length (utoa n) > 1 \<Longrightarrow> \<not> (hd (utoa n) < CHR ''1'' \<or> CHR ''9'' < hd (utoa n))"
proof -
  assume long: "length (utoa n) > 1"
  then have "0 < n" by (cases "n = 0") (simp_all add: utoa.simps [of 0])
  then have "hd (utoa n) \<noteq> CHR ''0''" by (rule utoa_no_leading_zero)
  moreover have "is_digit (hd (utoa n))"
    using utoa_digits [of n] by (cases "utoa n") auto
  moreover have "(of_char (hd (utoa n)) :: nat) = 48 \<longleftrightarrow> hd (utoa n) = CHR ''0''"
    using of_char_eq_iff [of "hd (utoa n)" "CHR ''0''"] by simp
  ultimately show ?thesis
    by (auto simp: is_digit_def less_eq_char_nat less_char_def)
qed

text \<open>Splitting a printed prefix at its slash gives back the address and the bits.\<close>

lemma ParsePrefix_slash:
  assumes "CHR ''/'' \<notin> set bitsStr"
  shows "ParsePrefix (addr @ ''/'' @ bitsStr) =
     (case ParseAddr addr of
        None \<Rightarrow> None
      | Some a \<Rightarrow>
          if Zone a \<noteq> [] then None
          else if length bitsStr > 1 \<and> (hd bitsStr < CHR ''1'' \<or> CHR ''9'' < hd bitsStr) then None
          else case Atoi bitsStr of
            None \<Rightarrow> None
          | Some bits \<Rightarrow>
              if bits < 0 \<or> bits > int (BitLen a) then None else Some (PrefixFrom a (nat bits)))"
proof -
  have "takeWhile (\<lambda>c. c \<noteq> CHR ''/'') (rev (addr @ ''/'' @ bitsStr)) = rev bitsStr"
    using assms by (simp, subst takeWhile_append2) auto
  then show ?thesis by (simp add: ParsePrefix_def Let_def)
qed

lemma BitLen_le: "BitLen a \<le> 128"
  by (cases a) auto

text \<open>A printed prefix is parsed again whenever its printed address is.\<close>

lemma ParsePrefix_Prefix_String:
  assumes "ParseAddr (Addr_String a) = Some a" and "Zone a = []" and "bits \<le> BitLen a"
  shows "ParsePrefix (Prefix_String (PrefixFrom a bits)) = Some (PrefixFrom a bits)"
proof -
  have a: "withoutZone a = a" using assms(2) by (cases a) auto
  have "CHR ''/'' \<notin> set (utoa bits)"
    using utoa_no_punctuation digit_not_punctuation by blast
  moreover have "Atoi (utoa bits) = Some (int bits)"
    using assms(3) BitLen_le [of a] by (intro Atoi_utoa) simp
  ultimately show ?thesis
    using assms utoa_bits_leading [of bits]
    by (simp add: Prefix_String_def PrefixFrom_def a ParsePrefix_slash [of _ "Addr_String a", simplified])
qed

subsection \<open>Addresses that were parsed are well formed\<close>

lemma parse_octet_bound: "parse_octet s = Some b \<Longrightarrow> b < 256"
  by (auto simp: parse_octet_def split: if_splits)

lemma parse_octets_wf:
  "parse_octets fs = Some os \<Longrightarrow> length os = length fs \<and> list_all (\<lambda>b. b < 256) os"
  by (induction fs arbitrary: os) (auto split: option.splits dest: parse_octet_bound)

lemma parseIPv4Fields_wf: "parseIPv4Fields s = Some os \<Longrightarrow> wf_addr (IPv4 os)"
  by (auto simp: parseIPv4Fields_def Let_def split: if_splits dest: parse_octets_wf)

lemma hex_val_bound: "is_hex c \<Longrightarrow> hex_val c < 16"
  by (auto simp: is_hex_def hex_val_def is_digit_def less_eq_char_nat)

lemma hexes_val_bound:
  "list_all is_hex s \<Longrightarrow> hexes_val acc s < (acc + 1) * 16 ^ length s"
proof (induction s arbitrary: acc)
  case Nil
  then show ?case by simp
next
  case (Cons c s)
  then have "hexes_val acc (c # s) < (16 * acc + hex_val c + 1) * 16 ^ length s"
    by simp
  also have "\<dots> \<le> (16 * (acc + 1)) * 16 ^ length s"
    using Cons.prems hex_val_bound [of c] by (intro mult_right_mono) auto
  finally show ?case by (simp add: algebra_simps)
qed

lemma hex_group_bound:
  assumes "length (takeWhile is_hex s) \<le> 4"
  shows "hexes_val 0 (takeWhile is_hex s) < 65536"
proof -
  have "hexes_val 0 (takeWhile is_hex s) < 16 ^ length (takeWhile is_hex s)"
    using hexes_val_bound [of "takeWhile is_hex s" 0] set_takeWhileD
    by (force simp: list_all_iff)
  also have "\<dots> \<le> 16 ^ 4"
    using assms by (intro power_increasing) auto
  finally show ?thesis by simp
qed

abbreviation wf_groups :: "nat list \<Rightarrow> bool" where
  "wf_groups gs \<equiv> list_all (\<lambda>g. g < 65536) gs"

lemma parseIPv4Fields_groups:
  assumes "parseIPv4Fields s = Some [a, b, c, d]"
  shows "256 * a + b < 65536" "256 * c + d < 65536"
  using parseIPv4Fields_wf [OF assms] by auto

lemma parseIPv6_loop_wf:
  assumes "parseIPv6_loop free s gs e = Some (rest, gs', e')"
    and "wf_groups gs" and "length gs + free = 8" and "\<forall>k. e = Some k \<longrightarrow> k \<le> length gs"
  shows "wf_groups gs' \<and> length gs' \<le> 8 \<and> (\<forall>k. e' = Some k \<longrightarrow> k \<le> length gs')"
  using assms
proof (induction free s gs e arbitrary: rest gs' e' rule: parseIPv6_loop.induct)
  case (1 s gs e)
  then show ?case by auto
next
  case (2 free s gs e)
  have len: "length (takeWhile is_hex s) \<le> 4" and hex: "takeWhile is_hex s \<noteq> []"
    using "2.prems"(1) by (auto simp: Let_def split: if_splits)
  note g = hex_group_bound [OF len]
  show ?case
  proof (cases "dropWhile is_hex s")
    case Nil
    with "2.prems" len hex g show ?thesis by (auto simp: Let_def)
  next
    case (Cons c r)
    consider (dot) "c = CHR ''.''" | (colon) "c = CHR '':''"
      using "2.prems"(1) len hex Cons by (auto simp: Let_def split: if_splits)
    then show ?thesis
    proof cases
      case dot
      with "2.prems" len hex Cons obtain a b c d where
        v4: "parseIPv4Fields s = Some [a, b, c, d]" and
        res: "gs' = gs @ [256 * a + b, 256 * c + d]" "e' = e" "length gs + 2 \<le> 8"
        by (auto simp: Let_def split: if_splits option.splits list.splits)
      with "2.prems"(2,4) parseIPv4Fields_groups [OF v4] show ?thesis by fastforce
    next
      case colon
      with "2.prems"(1) len hex Cons obtain d r' where r: "r = d # r'"
        by (auto simp: Let_def split: if_splits list.splits)
      show ?thesis
      proof (cases "d = CHR '':''")
        case True
        with "2.prems" "2.IH"(1) [OF refl refl refl _ Cons _ _ r] len hex Cons colon r g show ?thesis
          by (auto simp: Let_def split: if_splits)
      next
        case False
        with "2.prems" "2.IH"(2) [OF refl refl refl _ Cons _ _ r] len hex Cons colon r g show ?thesis
          by (fastforce simp: Let_def)
      qed
    qed
  qed
qed

lemma parseIPv6_groups_wf: "parseIPv6_groups s = Some gs \<Longrightarrow> length gs = 8 \<and> wf_groups gs"
proof -
  assume parsed: "parseIPv6_groups s = Some gs"
  let ?t = "if take 2 s = ''::'' then drop 2 s else s"
  let ?e = "if take 2 s = ''::'' then Some 0 else None"
  show ?thesis
  proof (cases "take 2 s = ''::'' \<and> ?t = []")
    case True
    with parsed show ?thesis by (auto simp: parseIPv6_groups_def Let_def list_all_iff)
  next
    case False
    with parsed obtain rest gs' e where
      loop: "parseIPv6_loop 8 ?t [] ?e = Some (rest, gs', e)"
      and gs: "length gs' < 8 \<and> (\<exists>k. e = Some k \<and>
            gs = take k gs' @ replicate (8 - length gs') 0 @ drop k gs')
          \<or> \<not> length gs' < 8 \<and> gs = gs'"
      by (auto simp: parseIPv6_groups_def Let_def split: if_splits option.splits)
    from parseIPv6_loop_wf [OF loop] have
      "wf_groups gs'" "length gs' \<le> 8" "\<forall>k. e = Some k \<longrightarrow> k \<le> length gs'"
      by (auto split: if_splits)
    with gs show ?thesis
      by (auto simp: list_all_iff) (meson in_set_takeD, meson in_set_dropD)
  qed
qed

lemma ParseAddr_wf: "ParseAddr s = Some a \<Longrightarrow> wf_addr a"
  by (auto simp: ParseAddr_def parseIPv6_def Let_def simp del: wf_addr.simps(1)
      split: list.splits if_splits dest: parseIPv4Fields_wf parseIPv6_groups_wf)

subsection \<open>IPv6 addresses\<close>

lemma hex_digit_val: "d < 16 \<Longrightarrow> hex_val (hex_digit d) = d \<and> is_hex (hex_digit d)"
  by (auto simp: hex_val_def is_hex_def is_digit_def less_eq_char_nat)

declare hex_digit.simps [simp del]

lemma hexes_val_append: "hexes_val acc (s @ t) = hexes_val (hexes_val acc s) t"
  by (induction s arbitrary: acc) auto

lemma utox_val: "hexes_val 0 (utox n) = n \<and> list_all is_hex (utox n) \<and> utox n \<noteq> []"
proof (induction n rule: utox.induct)
  case (1 n)
  then show ?case
    using hex_digit_val [of "n mod 16"] hex_digit_val [of n]
    by (cases "n < 16") (simp_all add: utox.simps [of n] hexes_val_append)
qed

lemma utox_length: "0 < k \<Longrightarrow> n < 16 ^ k \<Longrightarrow> length (utox n) \<le> k"
proof (induction n arbitrary: k rule: utox.induct)
  case (1 n)
  show ?case
  proof (cases "n < 16")
    case True
    with "1.prems" show ?thesis by (simp add: utox.simps [of n])
  next
    case False
    with "1.prems" obtain k' where k: "k = Suc k'" "0 < k'"
      by (cases k; cases "k - 1") auto
    with "1.prems"(2) have "n div 16 < 16 ^ k'"
      by (simp add: div_less_iff_less_mult mult.commute)
    with "1.IH" False k show ?thesis by (simp add: utox.simps [of n])
  qed
qed

lemma not_is_hex: "\<not> is_hex CHR '':''" "\<not> is_hex CHR ''.''" "\<not> is_hex CHR ''%''"
  by (auto simp: is_hex_def is_digit_def less_eq_char_nat)

text \<open>Reading one printed group off the front of a string.\<close>

lemma read_group:
  assumes "t = [] \<or> \<not> is_hex (hd t)"
  shows "takeWhile is_hex (utox g @ t) = utox g" "dropWhile is_hex (utox g @ t) = t"
proof -
  have all: "\<And>c. c \<in> set (utox g) \<Longrightarrow> is_hex c"
    using utox_val [of g] by (auto simp: list_all_iff)
  show "takeWhile is_hex (utox g @ t) = utox g"
    using assms all by (cases t) (simp_all add: takeWhile_append2)
  show "dropWhile is_hex (utox g @ t) = t"
    using assms all by (cases t) (simp_all add: dropWhile_append2)
qed

lemma group_length: "g < 65536 \<Longrightarrow> length (utox g) \<le> 4"
  using utox_length [of 4 g] by simp

abbreviation print_groups :: "nat list \<Rightarrow> string" where
  "print_groups gs \<equiv> Join CHR '':'' (map utox gs)"

lemma Join_Cons: "ws \<noteq> [] \<Longrightarrow> Join sep (w # ws) = w @ sep # Join sep ws"
  by (cases ws) simp_all

lemma print_groups_hd: "gs \<noteq> [] \<Longrightarrow> \<exists>c s. print_groups gs = c # s \<and> is_hex c"
  using utox_val [of "hd gs"] by (cases gs; cases "tl gs"; cases "utox (hd gs)") auto

lemma parseIPv6_loop_last:
  assumes "g < 65536"
  shows "parseIPv6_loop (Suc free) (utox g) gs e = Some ([], gs @ [g], e)"
  using utox_val [of g] group_length [OF assms] read_group [of "[]" g]
  by (simp add: Let_def del: takeWhile_eq_all_conv dropWhile_eq_Nil_conv)

lemma parseIPv6_loop_colon:
  assumes "g < 65536" and "d \<noteq> CHR '':''"
  shows "parseIPv6_loop (Suc free) (utox g @ CHR '':'' # d # r) gs e =
    parseIPv6_loop free (d # r) (gs @ [g]) e"
  using assms utox_val [of g] group_length [of g] not_is_hex
  by (simp add: Let_def read_group)

lemma parseIPv6_loop_colons:
  assumes "g < 65536"
  shows "parseIPv6_loop (Suc free) (utox g @ ''::'' @ r) gs None =
    (if r = [] then Some ([], gs @ [g], Some (length gs + 1))
     else parseIPv6_loop free r (gs @ [g]) (Some (length gs + 1)))"
  using assms utox_val [of g] group_length [of g] not_is_hex
  by (simp add: Let_def read_group)

lemma parseIPv6_loop_groups:
  assumes "ws \<noteq> []" and "wf_groups ws" and "length ws \<le> free"
  shows "parseIPv6_loop free (print_groups ws) gs e = Some ([], gs @ ws, e)"
  using assms
proof (induction ws arbitrary: free gs)
  case Nil
  then show ?case by simp
next
  case (Cons w ws)
  then obtain free' where free: "free = Suc free'" by (cases free) auto
  show ?case
  proof (cases "ws = []")
    case True
    with Cons.prems free show ?thesis by (simp add: parseIPv6_loop_last del: parseIPv6_loop.simps)
  next
    case False
    obtain c s where cs: "print_groups ws = c # s" and "is_hex c"
      using print_groups_hd [OF False] by blast
    then have "c \<noteq> CHR '':''" using not_is_hex by auto
    with Cons False free cs show ?thesis
      by (simp add: Join_Cons parseIPv6_loop_colon del: parseIPv6_loop.simps)
  qed
qed

lemma parseIPv6_loop_ellipsis:
  assumes "ws \<noteq> []" and "wf_groups ws" and "length ws \<le> free"
  shows "parseIPv6_loop free (print_groups ws @ ''::'' @ t) gs None =
     (if t = [] then Some ([], gs @ ws, Some (length (gs @ ws)))
      else parseIPv6_loop (free - length ws) t (gs @ ws) (Some (length (gs @ ws))))"
  using assms
proof (induction ws arbitrary: free gs)
  case Nil
  then show ?case by simp
next
  case (Cons w ws)
  then obtain free' where free: "free = Suc free'" by (cases free) auto
  show ?case
  proof (cases "ws = []")
    case True
    with Cons.prems free show ?thesis
      using parseIPv6_loop_colons [of w free' t gs] by (simp del: parseIPv6_loop.simps)
  next
    case False
    obtain c s where cs: "print_groups ws = c # s" and "is_hex c"
      using print_groups_hd [OF False] by blast
    then have "c \<noteq> CHR '':''" using not_is_hex by auto
    with Cons.prems Cons.IH [of free' "gs @ [w]"] False free cs show ?thesis
      by (simp add: Join_Cons parseIPv6_loop_colon del: parseIPv6_loop.simps)
  qed
qed

lemma zero_run_zeros:
  assumes "length gs = 8" and "zero_run gs = (start, len)" and "len \<noteq> 0"
  shows "gs = take start gs @ replicate len 0 @ drop (start + len) gs"
proof -
  let ?ok = "\<lambda>(start, len). len = (0::nat) \<or> take len (drop start gs) = replicate len 0"
  let ?f = "\<lambda>i (start, len).
         let l = length (takeWhile (\<lambda>g. g = 0) (drop i gs))
         in if 2 \<le> l \<and> len < l then (i, l) else (start, len)"
  have step: "?ok (?f i p)" if "?ok p" for i p
  proof -
    obtain st n where p: "p = (st, n)" by fastforce
    have "takeWhile (\<lambda>g. g = 0) (drop i gs) =
        replicate (length (takeWhile (\<lambda>g. g = 0) (drop i gs))) 0"
      by (metis (full_types) replicate_length_same set_takeWhileD)
    then show ?thesis
      using that p by (auto simp: Let_def takeWhile_eq_take [symmetric])
  qed
  have "?ok (fold ?f [0..<8] (255, 0))"
    by (rule fold_invariant [where P = ?ok and Q = "\<lambda>_. True"]) (simp, simp, rule step)
  then have "?ok (zero_run gs)"
    by (simp only: zero_run_def)
  then have "take len (drop start gs) = replicate len 0"
    using assms(2,3) by simp
  then show ?thesis
    by (metis append_take_drop_id drop_drop add.commute)
qed

lemma print_groups_not_leading: "gs \<noteq> [] \<Longrightarrow> take 2 (print_groups gs @ t) \<noteq> ''::''"
  using print_groups_hd [of gs] not_is_hex by (auto simp: take_Cons numeral_2_eq_2 split: nat.split)

lemma parseIPv6_groups_string6:
  assumes len8: "length gs = 8" and wf: "wf_groups gs"
  shows "parseIPv6_groups (string6 gs) = Some gs"
proof -
  obtain start len where run: "zero_run gs = (start, len)" by fastforce
  show ?thesis
  proof (cases "len = 0")
    case True
    have "gs \<noteq> []" using len8 by auto
    with True run wf len8 show ?thesis
      using print_groups_not_leading [of gs "[]"] parseIPv6_loop_groups [of gs 8 "[]" None]
      by (simp add: string6_def parseIPv6_groups_def Let_def del: parseIPv6_loop.simps)
  next
    case False
    define A B where "A = take start gs" and "B = drop (start + len) gs"
    have gs: "gs = A @ replicate len 0 @ B"
      unfolding A_def B_def by (rule zero_run_zeros [OF len8 run False])
    have lenAB: "length A + length B = 8 - len" and "len \<le> 8" "0 < len"
      using gs len8 False by (metis length_append length_replicate add.left_commute add_diff_cancel_left', metis length_append length_replicate add.left_commute le_add1, simp)
    have wfAB: "wf_groups A" "wf_groups B"
      using wf gs by (metis list_all_append)+
    have printed: "string6 gs = print_groups A @ ''::'' @ print_groups B"
      using run False by (simp add: string6_def A_def B_def)
    show ?thesis
    proof (cases "A = []")
      case True
      show ?thesis
      proof (cases "B = []")
        case True
        with \<open>A = []\<close> gs len8 printed show ?thesis by (simp add: parseIPv6_groups_def)
      next
        case False
        with \<open>A = []\<close> gs printed lenAB wfAB \<open>0 < len\<close> \<open>len \<le> 8\<close> show ?thesis
          using parseIPv6_loop_groups [of B 8 "[]" "Some 0"] print_groups_hd [of B]
          by (auto simp: parseIPv6_groups_def Let_def simp del: parseIPv6_loop.simps)
      qed
    next
      case False
      have "parseIPv6_loop 8 (string6 gs) [] None = Some ([], A @ B, Some (length A))"
        using parseIPv6_loop_ellipsis [of A 8 "print_groups B" "[]"] False wfAB lenAB \<open>0 < len\<close>
          parseIPv6_loop_groups [of B "8 - length A" A "Some (length A)"] print_groups_hd [of B] printed
        by (cases "B = []") (auto simp del: parseIPv6_loop.simps)
      with False gs lenAB \<open>0 < len\<close> \<open>len \<le> 8\<close> show ?thesis
        using print_groups_not_leading [of A "''::'' @ print_groups B"] printed
        by (simp add: parseIPv6_groups_def Let_def del: parseIPv6_loop.simps)
    qed
  qed
qed

lemma parseIPv6_no_zone:
  assumes "CHR ''%'' \<notin> set s"
  shows "parseIPv6 s = map_option (\<lambda>gs. IPv6 gs []) (parseIPv6_groups s)"
proof -
  have "dropWhile (\<lambda>c. c \<noteq> CHR ''%'') s = []" "takeWhile (\<lambda>c. c \<noteq> CHR ''%'') s = s"
    using assms by (auto simp: dropWhile_eq_Nil_conv takeWhile_eq_all_conv)
  then show ?thesis
    by (simp add: parseIPv6_def del: dropWhile_eq_Nil_conv takeWhile_eq_all_conv)
qed

text \<open>A text of hexadecimal digits and colons goes to the IPv6 parser and has no zone.\<close>

lemma ParseAddr_hex_colons:
  assumes "CHR '':'' \<in> set s" and "\<forall>c \<in> set s. is_hex c \<or> c = CHR '':''"
  shows "ParseAddr s = map_option (\<lambda>gs. IPv6 gs []) (parseIPv6_groups s)"
proof -
  let ?P = "\<lambda>c. c \<notin> {CHR ''.'', CHR '':'', CHR ''%''}"
  have "dropWhile ?P s \<noteq> []"
    using assms(1) by (auto simp: dropWhile_eq_Nil_conv)
  then obtain c r where cr: "dropWhile ?P s = c # r"
    by (cases "dropWhile ?P s") auto
  then have "\<not> ?P c" and "c \<in> set s"
    using hd_dropWhile [of ?P s] set_dropWhileD [of c ?P s] by auto
  with assms(2) have "c = CHR '':''" using not_is_hex by auto
  moreover have "CHR ''%'' \<notin> set s"
    using assms(2) not_is_hex by auto
  ultimately show ?thesis
    using cr by (simp add: ParseAddr_def parseIPv6_no_zone)
qed

lemma set_Join: "set (Join sep ws) \<subseteq> insert sep (\<Union> (set ` set ws))"
  by (induction sep ws rule: Join.induct) auto

lemma string6_chars:
  assumes "length gs = 8"
  shows "CHR '':'' \<in> set (string6 gs)" "\<forall>c \<in> set (string6 gs). is_hex c \<or> c = CHR '':''"
proof -
  have hex: "is_hex c \<or> c = CHR '':''" if "c \<in> set (print_groups ws)" for c ws
    using that set_Join [of "CHR '':''" "map utox ws"] utox_val by (fastforce simp: list_all_iff)
  then show "\<forall>c \<in> set (string6 gs). is_hex c \<or> c = CHR '':''"
    by (auto simp: string6_def split: prod.split if_splits)
  obtain a b ws where "gs = a # b # ws"
    using assms by (cases gs; cases "tl gs") auto
  then show "CHR '':'' \<in> set (string6 gs)"
    by (cases "zero_run gs") (auto simp: string6_def)
qed

lemma string4_chars: "c \<in> set (string4 os) \<Longrightarrow> is_digit c \<or> c = CHR ''.''"
  using set_Join [of "CHR ''.''" "map utoa os"] utoa_no_punctuation by (fastforce simp: string4_def)

lemma parseIPv6_loop_embedded:
  assumes "wf_addr (IPv4 [a, b, c, d])" and "length gs \<le> 6"
  shows "parseIPv6_loop (Suc free) (string4 [a, b, c, d]) gs (Some e) =
    Some ([], gs @ [256 * a + b, 256 * c + d], Some e)"
proof -
  have split: "string4 [a, b, c, d] = utoa a @ CHR ''.'' # string4 [b, c, d]"
    by (rule string4_Cons) simp
  have digits: "\<And>x. x \<in> set (utoa a) \<Longrightarrow> is_hex x"
    using utoa_no_punctuation by (auto simp: is_hex_def)
  have "a < 10 ^ 3" using assms(1) by simp
  have short: "length (utoa n) \<le> k" if "0 < k" "n < 10 ^ k" for n k
    using that
  proof (induction n arbitrary: k rule: utoa.induct)
    case (1 n)
    show ?case
    proof (cases "n < 10")
      case True
      with "1.prems" show ?thesis by (simp add: utoa.simps [of n])
    next
      case False
      with "1.prems" obtain k' where k: "k = Suc k'" "0 < k'"
        by (cases k; cases "k - 1") auto
      with "1.prems"(2) have "n div 10 < 10 ^ k'"
        by (simp add: div_less_iff_less_mult mult.commute)
      with "1.IH" False k show ?thesis by (simp add: utoa.simps [of n])
    qed
  qed
  have "takeWhile is_hex (string4 [a, b, c, d]) = utoa a"
    and "dropWhile is_hex (string4 [a, b, c, d]) = CHR ''.'' # string4 [b, c, d]"
    unfolding split using digits not_is_hex
    by (simp_all add: takeWhile_append2 dropWhile_append2)
  with assms short [of 3 a] \<open>a < 10 ^ 3\<close> utoa_digits [of a] show ?thesis
    by (simp add: Let_def parseIPv4Fields_string4)
qed

lemma parseIPv6_groups_leading:
  assumes "u \<noteq> []" and "parseIPv6_loop 8 u [] (Some 0) = Some ([], gs, Some 0)" and "length gs < 8"
  shows "parseIPv6_groups (''::'' @ u) = Some (replicate (8 - length gs) 0 @ gs)"
  using assms by (simp add: parseIPv6_groups_def del: parseIPv6_loop.simps)

lemma ParseAddr_4in6:
  assumes "wf_addr (IPv4 [a, b, c, d])"
  shows "ParseAddr (''::ffff:'' @ string4 [a, b, c, d]) =
    Some (IPv6 [0, 0, 0, 0, 0, 65535, 256 * a + b, 256 * c + d] [])"
proof -
  have "char_of (102 :: nat) = CHR ''f''"
    by code_simp
  then have ffff: "''ffff'' = utox 65535"
    by (simp add: utox.simps hex_digit.simps)
  obtain x s where xs: "string4 [a, b, c, d] = x # s" and x: "x \<noteq> CHR '':''"
  proof -
    obtain x r where "utoa a = x # r" "is_digit x"
      using utoa_digits [of a] by (cases "utoa a") auto
    then show ?thesis
      using that digit_not_punctuation by (auto simp: string4_Cons)
  qed
  have "parseIPv6_loop 8 (utox 65535 @ CHR '':'' # string4 [a, b, c, d]) [] (Some 0) =
      Some ([], [65535, 256 * a + b, 256 * c + d], Some 0)"
    using parseIPv6_loop_colon [of 65535 x 7 s "[]" "Some 0"] x
      parseIPv6_loop_embedded [OF assms, of "[65535]" 6 0]
    by (simp add: xs del: parseIPv6_loop.simps utox.simps)
  then have "parseIPv6_groups (''::'' @ utox 65535 @ CHR '':'' # string4 [a, b, c, d]) =
      Some (replicate 5 0 @ [65535, 256 * a + b, 256 * c + d])"
    by (subst parseIPv6_groups_leading) auto
  moreover have "replicate 5 (0 :: nat) = [0, 0, 0, 0, 0]"
    by (simp add: numeral_eq_Suc)
  ultimately have groups: "parseIPv6_groups (''::ffff:'' @ string4 [a, b, c, d]) =
      Some [0, 0, 0, 0, 0, 65535, 256 * a + b, 256 * c + d]"
    using ffff [symmetric] by simp
  have "CHR ''%'' \<notin> set (string4 [a, b, c, d])"
    using string4_chars digit_not_punctuation by fastforce
  then show ?thesis
    using groups by (simp add: ParseAddr_def parseIPv6_no_zone)
qed

text \<open>Every well formed address without a zone is parsed back from its printed form.\<close>

lemma ParseAddr_Addr_String:
  assumes "wf_addr a" and "Zone a = []"
  shows "ParseAddr (Addr_String a) = Some a"
proof (cases a)
  case (IPv4 os)
  with assms show ?thesis by (simp add: ParseAddr_string4)
next
  case (IPv6 gs z)
  with assms have len: "length gs = 8" and wf: "wf_groups gs" and "z = []" by auto
  show ?thesis
  proof (cases "Is4In6 gs")
    case False
    with IPv6 len wf \<open>z = []\<close> show ?thesis
      using ParseAddr_hex_colons [OF string6_chars [OF len]] parseIPv6_groups_string6 [OF len wf]
      by simp
  next
    case True
    then have "gs = [0, 0, 0, 0, 0, 65535] @ drop 6 gs" and "length (drop 6 gs) = 2"
      using len by (simp_all add: Is4In6_def) (metis append_take_drop_id append_Cons append_Nil)
    moreover from this(2) obtain g h where "drop 6 gs = [g, h]"
      by (cases "drop 6 gs"; cases "tl (drop 6 gs)") auto
    ultimately have gs: "gs = [0, 0, 0, 0, 0, 65535, g, h]" by simp
    with wf have "wf_addr (IPv4 [g div 256, g mod 256, h div 256, h mod 256])" by auto
    from ParseAddr_4in6 [OF this] IPv6 True gs \<open>z = []\<close> show ?thesis by simp
  qed
qed

section \<open>The forms of parsed and of printed addresses\<close>

lemma Zone_withoutZone [simp]: "Zone (withoutZone a) = []" "BitLen (withoutZone a) = BitLen a"
   "wf_addr (withoutZone a) = wf_addr a" "withoutZone (withoutZone a) = withoutZone a"
  by (cases a; simp)+

lemma ParsePrefix_wf:
  assumes "ParsePrefix s = Some p"
  shows "\<exists>a. wf_addr a \<and> Zone a = [] \<and> p = PrefixFrom a (PrefixBits p) \<and> PrefixBits p \<le> BitLen a"
  using assms
  by (auto simp: ParsePrefix_def Let_def PrefixFrom_def split: if_splits option.splits dest: ParseAddr_wf
     intro!: exI [of _ "PrefixAddr p"])

lemma is_space_punct: "is_hex c \<or> c = CHR '':'' \<or> c = CHR ''.'' \<Longrightarrow> \<not> is_space c"
  by (auto simp: is_hex_def is_space_def char_range_defs)

lemma is_digit_hex: "is_digit c \<Longrightarrow> is_hex c" by (simp add: is_hex_def)

lemma string4_hd:
  assumes "os \<noteq> []"
  shows "\<exists>c t. string4 os = c # t \<and> is_digit c"
proof -
  obtain b bs where os: "os = b # bs" using assms by (cases os) auto
  obtain c t where "utoa b = c # t" and "is_digit c"
    using utoa_digits [of b] by (cases "utoa b") auto
  with os show ?thesis by (cases bs) (auto simp: string4_def)
qed

lemma Addr_String_hd:
  assumes "wf_addr a"
  shows "\<exists>c t. Addr_String a = c # t \<and> (is_hex c \<or> c = CHR '':'')"
proof (cases a)
  case (IPv4 os)
  with assms have "os \<noteq> []" by auto
  with IPv4 show ?thesis using string4_hd is_digit_hex by fastforce
next
  case (IPv6 gs z)
  with assms have "length gs = 8" by simp
  from string6_chars [OF this] IPv6 show ?thesis by (cases "string6 gs") auto
qed

lemma TrimSpace_Prefix_String:
  assumes "wf_addr a" and "Zone a = []"
  shows "TrimSpace (Prefix_String (PrefixFrom a bits)) = Prefix_String (PrefixFrom a bits)"
proof (rule TrimSpace_id)
  obtain c t where "Addr_String (withoutZone a) = c # t" and "is_hex c \<or> c = CHR '':''"
    using Addr_String_hd [of "withoutZone a"] assms(1) by auto
  then show "\<not> is_space (hd (Prefix_String (PrefixFrom a bits)))"
    using is_space_punct [of c] by (auto simp: Prefix_String_def PrefixFrom_def)
  have "is_digit (last (utoa bits))" and "utoa bits \<noteq> []"
    using utoa_digits [of bits] by (auto simp: list_all_iff)
  then show "\<not> is_space (last (Prefix_String (PrefixFrom a bits)))"
    using is_digit_hex is_space_punct by (simp add: Prefix_String_def PrefixFrom_def)
qed (simp add: Prefix_String_def)

end
