(* ===== verification/Ingress_Plugins.thy ===== *)
theory Ingress_Plugins
  imports Converter Netip "HOL-Library.Sublist"
begin

text \<open>
  The package \<open>internal/caddy/ingress\<close>: the middlewares that turn one path of an ingress rule into
  a Caddy route. Each is called with the route built so far and returns it with handlers or a
  matcher set appended, or an error that stops the conversion.

  The contract every middleware keeps is the locale \<open>ingress_middleware\<close> (the interface
  \<open>IngressMiddleware\<close> of \<open>pkg/converter\<close>): it only appends, a fixed number of matcher sets whose
  path matchers are never empty, and it does not panic on a path the API server accepts. It is
  interpreted on the four plugins; \<open>IngressPlugin\<close> relies on it for chains of them.
\<close>

section \<open>Annotations\<close>

definition annotationPrefix :: string where
  "annotationPrefix = ''caddy.ingress.kubernetes.io''"

definition rewriteToAnnotation :: string where
  "rewriteToAnnotation = ''rewrite-to''"

definition rewriteStripPrefixAnnotation :: string where
  "rewriteStripPrefixAnnotation = ''rewrite-strip-prefix''"

definition disableSSLRedirect :: string where
  "disableSSLRedirect = ''disable-ssl-redirect''"

definition backendProtocol :: string where
  "backendProtocol = ''backend-protocol''"

definition insecureSkipVerify :: string where
  "insecureSkipVerify = ''insecure-skip-verify''"

definition permanentRedirectAnnotation :: string where
  "permanentRedirectAnnotation = ''permanent-redirect''"

definition permanentRedirectCodeAnnotation :: string where
  "permanentRedirectCodeAnnotation = ''permanent-redirect-code''"

definition temporaryRedirectAnnotation :: string where
  "temporaryRedirectAnnotation = ''temporal-redirect''"

definition trustedProxies :: string where
  "trustedProxies = ''trusted-proxies''"

lemmas annotation_name_defs =
  rewriteToAnnotation_def rewriteStripPrefixAnnotation_def disableSSLRedirect_def
  backendProtocol_def insecureSkipVerify_def permanentRedirectAnnotation_def
  permanentRedirectCodeAnnotation_def temporaryRedirectAnnotation_def trustedProxies_def

definition getAnnotation :: "Ingress \<Rightarrow> string \<Rightarrow> string" where
  "getAnnotation ing rule =
     (case Annotations ing (annotationPrefix @ ''/'' @ rule) of None \<Rightarrow> [] | Some v \<Rightarrow> v)"

definition getAnnotationBool :: "Ingress \<Rightarrow> string \<Rightarrow> bool \<Rightarrow> bool" where
  "getAnnotationBool ing rule def =
     (let val = getAnnotation ing rule in if val = [] then def else val = ''true'')"

section \<open>The input of a middleware\<close>

record IngressMiddlewareInput =
  InConfig :: Config
  InStore :: Store
  InIngress :: Ingress
  InRule :: IngressRule
  InPath :: HTTPIngressPath
  InRoute :: Route

type_synonym IngressMiddleware = "IngressMiddlewareInput \<Rightarrow> Route result"

definition append_handler :: "raw_message \<Rightarrow> Route \<Rightarrow> Route" where
  "append_handler h r = r\<lparr>HandlersRaw := HandlersRaw r @ [h]\<rparr>"

definition append_matcher :: "module_map \<Rightarrow> Route \<Rightarrow> Route" where
  "append_matcher m r = r\<lparr>MatcherSetsRaw := MatcherSetsRaw r @ [m]\<rparr>"

lemma append_fields [simp]:
  "HandlersRaw (append_handler h r) = HandlersRaw r @ [h]"
  "MatcherSetsRaw (append_handler h r) = MatcherSetsRaw r"
  "HandlersRaw (append_matcher m r) = HandlersRaw r"
  "MatcherSetsRaw (append_matcher m r) = MatcherSetsRaw r @ [m]"
  by (simp_all add: append_handler_def append_matcher_def)

section \<open>Matcher\<close>

text \<open>The path patterns of a route: the branch of \<open>MatcherPlugin\<close> on \<open>PathType\<close>.\<close>

definition path_patterns :: "PathType \<Rightarrow> string \<Rightarrow> string list" where
  "path_patterns pt path =
     (if pt = PathTypePrefix then
        (let pathPattern = TrimSuffix path ''/''
         in if pathPattern = [] then [''/*''] else [pathPattern, pathPattern @ ''/*''])
      else [path])"

definition MatcherPlugin_IngressHandler :: IngressMiddleware where
  "MatcherPlugin_IngressHandler inp =
     (let match0 = Map.empty;
          match1 = (if getAnnotation (InIngress inp) disableSSLRedirect \<noteq> ''true''
                    then match0(''protocol'' \<mapsto> RawString ''https'') else match0);
          match2 = (if Host (InRule inp) \<noteq> []
                    then match1(''host'' \<mapsto> RawStrings [Host (InRule inp)]) else match1)
      in bind_result
           (if Path (InPath inp) \<noteq> []
            then bind_result (deref (PathTypeOf (InPath inp)))
                   (\<lambda>pt. Ok (match2(''path'' \<mapsto> RawStrings (path_patterns pt (Path (InPath inp))))))
            else Ok match2)
           (\<lambda>match. Ok (append_matcher match (InRoute inp))))"

section \<open>Rewrite\<close>

definition RewritePlugin_IngressHandler :: IngressMiddleware where
  "RewritePlugin_IngressHandler inp =
     (let ing = InIngress inp; route0 = InRoute inp;
          rewriteTo = getAnnotation ing rewriteToAnnotation;
          route1 = (if rewriteTo \<noteq> []
                    then append_handler (RawModule ''handler'' ''rewrite'' (Rewrite rewriteTo [])) route0
                    else route0);
          rewriteStripPrefix = getAnnotation ing rewriteStripPrefixAnnotation;
          route2 = (if rewriteStripPrefix \<noteq> []
                    then append_handler
                           (RawModule ''handler'' ''rewrite'' (Rewrite [] rewriteStripPrefix)) route1
                    else route1)
      in Ok route2)"

section \<open>Redirect\<close>

text \<open>The status code of a permanent redirect: the default, the annotation's value, or an error.\<close>

definition redirect_code :: "string \<Rightarrow> string result" where
  "redirect_code redirectCode =
     (if redirectCode = [] then Ok ''301''
      else case Atoi redirectCode of
        None \<Rightarrow> Err (ErrorValue ''not a supported redirection code type or not a valid integer'' redirectCode)
      | Some codeInt \<Rightarrow>
          if codeInt < 300 \<or> (codeInt > 399 \<and> codeInt \<noteq> 401)
          then Err (ErrorValue ''redirection code not in the 3xx range or 401'' (Itoa codeInt))
          else Ok redirectCode)"

definition RedirectPlugin_IngressHandler :: IngressMiddleware where
  "RedirectPlugin_IngressHandler inp =
     (let ing = InIngress inp;
          permanentRedir = getAnnotation ing permanentRedirectAnnotation;
          temporaryRedir = getAnnotation ing temporaryRedirectAnnotation
      in if permanentRedir \<noteq> [] \<and> temporaryRedir \<noteq> []
         then Err (ErrorString ''cannot use permanent-redirect annotation with temporal-redirect'')
         else
           bind_result
             (if permanentRedir \<noteq> []
              then bind_result (redirect_code (getAnnotation ing permanentRedirectCodeAnnotation))
                     (\<lambda>code. Ok (code, permanentRedir))
              else Ok (''301'', []))
             (\<lambda>(code0, redirectTo0).
               let code = (if temporaryRedir \<noteq> [] then ''302'' else code0);
                   redirectTo = (if temporaryRedir \<noteq> [] then temporaryRedir else redirectTo0)
               in Ok (if redirectTo \<noteq> []
                      then append_handler
                             (RawModule ''handler'' ''static_response''
                                (StaticResponse code [(''Location'', [redirectTo])])) (InRoute inp)
                      else InRoute inp)))"

section \<open>Reverse proxy\<close>

definition parseTrustedProxy :: "string \<Rightarrow> string result" where
  "parseTrustedProxy entry =
     (let trustedProxy = TrimSpace entry
      in if Contains trustedProxy CHR ''/'' then
           (case ParsePrefix trustedProxy of
              None \<Rightarrow> Err (ErrorValue ''failed to parse IP'' trustedProxy)
            | Some ipNet \<Rightarrow> Ok (Prefix_String ipNet))
         else
           (case ParseAddr trustedProxy of
              None \<Rightarrow> Err (ErrorValue ''failed to parse IP'' trustedProxy)
            | Some ipAddr \<Rightarrow> Ok (Prefix_String (PrefixFrom ipAddr (BitLen ipAddr)))))"

definition parseTrustedProxies :: "string list \<Rightarrow> string list result" where
  "parseTrustedProxies entries =
     range_loop
       (\<lambda>entry parsedProxies.
          bind_result (parseTrustedProxy entry) (\<lambda>p. Ok (parsedProxies @ [p])))
       entries []"

definition clusterHostName :: "IngressServiceBackend \<Rightarrow> string \<Rightarrow> string" where
  "clusterHostName svc namespace =
     ServiceName svc @ ''.'' @ namespace @ ''.svc.cluster.local:'' @ Itoa (PortNumber svc)"

definition ReverseProxyPlugin_IngressHandler :: IngressMiddleware where
  "ReverseProxyPlugin_IngressHandler inp =
     (let ing = InIngress inp;
          protocol = ToLower (getAnnotation ing backendProtocol);
          trustedProxiesAnnotation = ToLower (getAnnotation ing trustedProxies)
      in bind_result (deref (BackendService (InPath inp)))
           (\<lambda>svc.
             let transport =
                   HTTPTransport
                     (if protocol = ''https'' then Some (getAnnotationBool ing insecureSkipVerify True)
                      else None)
             in bind_result
                  (if trustedProxiesAnnotation \<noteq> []
                   then parseTrustedProxies (Split CHR '','' trustedProxiesAnnotation) else Ok [])
                  (\<lambda>parsedProxies.
                    Ok (append_handler
                          (RawModule ''handler'' ''reverse_proxy''
                             (ReverseProxy (RawModule ''protocol'' ''http'' transport)
                                [clusterHostName svc (Namespace ing)] parsedProxies))
                          (InRoute inp)))))"

lemmas ingress_handler_defs [plugin_defs] =
  MatcherPlugin_IngressHandler_def RewritePlugin_IngressHandler_def
  RedirectPlugin_IngressHandler_def ReverseProxyPlugin_IngressHandler_def

section \<open>The contract of a middleware\<close>

definition route_extends :: "Route \<Rightarrow> Route \<Rightarrow> bool" where
  "route_extends r r' \<longleftrightarrow>
     prefix (HandlersRaw r) (HandlersRaw r') \<and> prefix (MatcherSetsRaw r) (MatcherSetsRaw r')"

lemma route_extends_refl [simp]: "route_extends r r"
  by (simp add: route_extends_def)

lemma route_extends_trans: "route_extends r s \<Longrightarrow> route_extends s t \<Longrightarrow> route_extends r t"
  by (auto simp: route_extends_def intro: prefix_order.trans)

text \<open>
  A matcher set that \<open>sortRoutes\<close> can read: its path matcher, if it has one, lists a path.
  And a path as the middlewares need it: with a type and a service.
\<close>

definition matcher_ok :: "module_map \<Rightarrow> bool" where
  "matcher_ok m \<longleftrightarrow> m ''path'' \<noteq> Some (RawStrings [])"

definition wf_path :: "HTTPIngressPath \<Rightarrow> bool" where
  "wf_path p \<longleftrightarrow> PathTypeOf p \<noteq> None \<and> BackendService p \<noteq> None"

locale ingress_middleware =
  fixes handler :: IngressMiddleware
    and sets :: nat
  assumes appends: "handler inp = Ok r \<Longrightarrow> route_extends (InRoute inp) r"
    and matcher_sets: "handler inp = Ok r \<Longrightarrow>
      length (MatcherSetsRaw r) = length (MatcherSetsRaw (InRoute inp)) + sets"
    and keeps_matchers: "handler inp = Ok r \<Longrightarrow> list_all matcher_ok (MatcherSetsRaw (InRoute inp)) \<Longrightarrow>
      list_all matcher_ok (MatcherSetsRaw r)"
    and no_panic: "wf_path (InPath inp) \<Longrightarrow> handler inp \<noteq> Panic p"
    and ignores_config: "handler (inp\<lparr>InConfig := c\<rparr>) = handler inp"
begin

text \<open>A middleware that adds no matcher set leaves the matchers of the route as they are.\<close>

lemma same_matchers:
  assumes "handler inp = Ok r" and "sets = 0"
  shows "MatcherSetsRaw r = MatcherSetsRaw (InRoute inp)"
  using appends [OF assms(1)] matcher_sets [OF assms(1)] assms(2)
  by (auto simp: route_extends_def prefix_def)

lemma keeps_handlers: "handler inp = Ok r \<Longrightarrow> h \<in> set (HandlersRaw (InRoute inp)) \<Longrightarrow> h \<in> set (HandlersRaw r)"
  using appends [of inp r] by (auto simp: route_extends_def dest: set_mono_prefix)

lemma Ok_or_Err: "wf_path (InPath inp) \<Longrightarrow> (\<exists>r. handler inp = Ok r) \<or> (\<exists>e. handler inp = Err e)"
  using no_panic [of inp] by (cases "handler inp") auto

end

lemma parseTrustedProxies_no_panic: "parseTrustedProxies entries \<noteq> Panic p"
  unfolding parseTrustedProxies_def
  by (rule range_loop_no_panic) (auto simp: parseTrustedProxy_def Let_def split: option.split)

lemma path_patterns_nonempty [simp]: "path_patterns pt path \<noteq> []"
  by (simp add: path_patterns_def Let_def)

lemmas middleware_defs = Let_def route_extends_def matcher_ok_def wf_path_def

interpretation matcher_mw: ingress_middleware MatcherPlugin_IngressHandler 1
proof
  show "MatcherPlugin_IngressHandler (inp\<lparr>InConfig := c\<rparr>) = MatcherPlugin_IngressHandler inp" for inp c
    by (simp add: MatcherPlugin_IngressHandler_def Let_def cong: if_cong bind_result_cong)
qed (auto simp: MatcherPlugin_IngressHandler_def middleware_defs split: if_splits)

interpretation rewrite_mw: ingress_middleware RewritePlugin_IngressHandler 0
proof
  show "RewritePlugin_IngressHandler (inp\<lparr>InConfig := c\<rparr>) = RewritePlugin_IngressHandler inp" for inp c
    by (simp add: RewritePlugin_IngressHandler_def Let_def cong: if_cong bind_result_cong)
qed (auto simp: RewritePlugin_IngressHandler_def middleware_defs split: if_splits)

interpretation redirect_mw: ingress_middleware RedirectPlugin_IngressHandler 0
proof
  show "RedirectPlugin_IngressHandler (inp\<lparr>InConfig := c\<rparr>) = RedirectPlugin_IngressHandler inp" for inp c
    by (simp add: RedirectPlugin_IngressHandler_def Let_def cong: if_cong bind_result_cong)
qed (auto simp: RedirectPlugin_IngressHandler_def redirect_code_def middleware_defs
    split: if_splits option.splits)

interpretation reverseproxy_mw: ingress_middleware ReverseProxyPlugin_IngressHandler 0
proof
  show "ReverseProxyPlugin_IngressHandler (inp\<lparr>InConfig := c\<rparr>) = ReverseProxyPlugin_IngressHandler inp"
    for inp c
    by (simp add: ReverseProxyPlugin_IngressHandler_def Let_def cong: if_cong bind_result_cong)
  show "ReverseProxyPlugin_IngressHandler inp \<noteq> Panic p" if "wf_path (InPath inp)" for inp p
    using that parseTrustedProxies_no_panic
      [of "Split CHR '','' (ToLower (getAnnotation (InIngress inp) trustedProxies))"]
    by (cases "parseTrustedProxies (Split CHR '','' (ToLower (getAnnotation (InIngress inp) trustedProxies)))")
      (auto simp: ReverseProxyPlugin_IngressHandler_def middleware_defs)
qed (auto simp: ReverseProxyPlugin_IngressHandler_def middleware_defs split: if_splits)

section \<open>Paths\<close>

text \<open>
  The matcher of Caddy (\<open>caddyhttp.MatchPath\<close>) is third-party code, the parameter \<open>match\<close> below,
  from patterns and a request path to a truth value. \<open>caddy_path_contract\<close> is what its
  documentation says of plain paths: a path without a star matches itself, one that ends in \<open>/*\<close>
  matches the paths below it, and a list of patterns matches when one of them does. Plain are the
  lower-case paths without escapes, empty elements and dots, which Caddy does not rewrite first.
\<close>

lemma Split_prefix_iff:
  "prefix (Split sep s) (Split sep t) \<longleftrightarrow> t = s \<or> (\<exists>u. t = s @ sep # u)"
proof
  assume "prefix (Split sep s) (Split sep t)"
  then obtain ws where ws: "Split sep t = Split sep s @ ws" by (auto simp: prefix_def)
  show "t = s \<or> (\<exists>u. t = s @ sep # u)"
  proof (cases "ws = []")
    case True
    with ws show ?thesis by (metis Join_Split append_Nil2)
  next
    case False
    with ws show ?thesis by (metis Join_Split Join_append Split_nonempty)
  qed
next
  assume "t = s \<or> (\<exists>u. t = s @ sep # u)"
  then show "prefix (Split sep s) (Split sep t)" by (auto simp: Split_sep_append)
qed

text \<open>
  The request paths that Caddy does not rewrite before it matches (no letter that lower case changes, no
  element that cleaning the path removes), and the paths that are also plain as patterns: no character of a glob
  or of a placeholder.
\<close>

definition request_char :: "char \<Rightarrow> bool" where
  "request_char c \<longleftrightarrow> c \<noteq> CHR ''*'' \<and> c \<noteq> CHR ''%'' \<and> \<not> is_upper c \<and> (of_char c :: nat) < 128"

definition plain_request :: "string \<Rightarrow> bool" where
  "plain_request s \<longleftrightarrow>
     HasPrefix s ''/'' \<and> list_all request_char s \<and>
     list_all (\<lambda>e. e \<notin> {[], ''.'', ''..''}) (butlast (tl (Split CHR ''/'' s))) \<and>
     last (Split CHR ''/'' s) \<notin> {''.'', ''..''}"

definition pattern_char :: "char \<Rightarrow> bool" where
  "pattern_char c \<longleftrightarrow> c \<in> {CHR ''?'', CHR ''['', CHR 0x5C, CHR ''{'', CHR ''}''}"

definition plain_path :: "string \<Rightarrow> bool" where
  "plain_path s \<longleftrightarrow> plain_request s \<and> list_all (\<lambda>c. \<not> pattern_char c) s"

definition caddy_path_contract :: "(string list \<Rightarrow> string \<Rightarrow> bool) \<Rightarrow> bool" where
  "caddy_path_contract match \<longleftrightarrow>
     (\<forall>pats req. match pats req \<longleftrightarrow> (\<exists>p \<in> set pats. match [p] req)) \<and>
     (\<forall>p req. plain_path p \<longrightarrow> plain_request req \<longrightarrow> (match [p] req \<longleftrightarrow> req = p)) \<and>
     (\<forall>p req. plain_path p \<or> p = [] \<longrightarrow> plain_request req \<longrightarrow>
        (match [p @ ''/*''] req \<longleftrightarrow> HasPrefix req (p @ ''/'')))"

lemma caddy_path_contractD:
  assumes "caddy_path_contract match"
  shows "match (p # pats) req \<longleftrightarrow> match [p] req \<or> match pats req"
    and "plain_path p \<Longrightarrow> plain_request req \<Longrightarrow> match [p] req \<longleftrightarrow> req = p"
    and "plain_path p \<or> p = [] \<Longrightarrow> plain_request req \<Longrightarrow>
      match [p @ ''/*''] req \<longleftrightarrow> HasPrefix req (p @ ''/'')"
proof -
  have any: "match ps r \<longleftrightarrow> (\<exists>p \<in> set ps. match [p] r)" for ps r
    using assms unfolding caddy_path_contract_def by blast
  show "match (p # pats) req \<longleftrightarrow> match [p] req \<or> match pats req"
    unfolding any [of "p # pats"] any [of pats] by simp
qed (use assms in \<open>unfold caddy_path_contract_def, blast+\<close>)

lemma plain_path_TrimSuffix:
  assumes "plain_path p"
  shows "TrimSuffix p ''/'' = [] \<or> plain_path (TrimSuffix p ''/'')"
proof (cases "HasSuffix p ''/''")
  case False
  with assms show ?thesis by (simp add: TrimSuffix_def)
next
  case True
  then obtain t where p: "p = t @ ''/''" by (auto simp: HasSuffix_iff)
  have fields: "Split CHR ''/'' p = Split CHR ''/'' t @ [[]]"
    unfolding p by (simp add: Split_sep_append)
  obtain e es where t: "Split CHR ''/'' t = e # es"
    using Split_nonempty by (metis list.exhaust)
  have trim: "TrimSuffix p ''/'' = t" unfolding p by simp
  show ?thesis
  proof (cases "t = []")
    case False
    with assms p have "HasPrefix t ''/''" by (cases t) (auto simp: plain_path_def plain_request_def HasPrefix_iff)
    moreover have "list_all (\<lambda>e. e \<notin> {[], ''.'', ''..''}) es"
      using assms fields t by (simp add: plain_path_def plain_request_def butlast_append)
    moreover have "e = []"
      using \<open>HasPrefix t ''/''\<close> t by (auto simp: HasPrefix_iff)
    moreover have "list_all request_char t" "list_all (\<lambda>c. \<not> pattern_char c) t"
      using assms p by (simp_all add: plain_path_def plain_request_def)
    moreover have "es \<noteq> []"
      using \<open>HasPrefix t ''/''\<close> t by (auto simp: HasPrefix_iff)
    ultimately have "plain_path t" unfolding plain_path_def
      by (auto simp: plain_request_def t list_all_iff dest: in_set_butlastD last_in_set)
    with trim show ?thesis by simp
  qed (simp add: trim)
qed

text \<open>
  C22. The routes of a path of type \<open>Prefix\<close> match as Kubernetes defines it, by whole elements: a
  request matches exactly when the elements of the path, a trailing slash apart, are the first
  elements of the request's path. In particular \<open>/\<close> matches everything and \<open>/foo\<close> does not match
  \<open>/foobar\<close>.
\<close>

theorem prefix_path_semantics:
  assumes "caddy_path_contract match" and "plain_path path" and "plain_request req"
  shows "match (path_patterns PathTypePrefix path) req \<longleftrightarrow>
           prefix (Split CHR ''/'' (TrimSuffix path ''/'')) (Split CHR ''/'' req)"
proof -
  let ?p = "TrimSuffix path ''/''"
  have start: "HasPrefix req ''/''" using assms(3) by (simp add: plain_path_def plain_request_def)
  have rest: "match [?p @ ''/*''] req \<longleftrightarrow> HasPrefix req (?p @ ''/'')"
    using caddy_path_contractD(3) [OF assms(1)] plain_path_TrimSuffix [OF assms(2)] assms(3) by blast
  show ?thesis
  proof (cases "?p = []")
    case True
    with rest start show ?thesis
      by (auto simp: path_patterns_def Split_prefix_iff HasPrefix_iff)
  next
    case False
    with plain_path_TrimSuffix [OF assms(2)] have "plain_path ?p" by simp
    then have "match [?p] req \<longleftrightarrow> req = ?p"
      by (rule caddy_path_contractD(2) [OF assms(1) _ assms(3)])
    with False rest show ?thesis
      by (simp add: path_patterns_def Let_def caddy_path_contractD(1) [OF assms(1), of _ "[_]"] Split_prefix_iff HasPrefix_iff)
  qed
qed

text \<open>A matcher that meets the contract, for the example.\<close>

definition simple_match :: "string list \<Rightarrow> string \<Rightarrow> bool" where
  "simple_match pats req =
     list_ex (\<lambda>p. if HasSuffix p ''*'' then HasPrefix req (TrimSuffix p ''*'') else req = p) pats"

lemma simple_match_contract: "caddy_path_contract simple_match"
proof -
  have "\<not> HasSuffix p ''*''" if "plain_path p" for p
    using that by (auto simp: plain_path_def plain_request_def request_char_def HasSuffix_iff)
  moreover have "TrimSuffix (p @ ''/*'') ''*'' = p @ ''/''" for p
    using TrimSuffix_append [of "p @ ''/''" "''*''"] by simp
  moreover have "HasSuffix (p @ ''/*'') ''*''" for p
    using HasSuffix_append [of "p @ ''/''" "''*''"] by simp
  ultimately show ?thesis
    by (auto simp: caddy_path_contract_def simple_match_def list_ex_iff)
qed

theorem prefix_path_semantics_witness:
  "simple_match (path_patterns PathTypePrefix ''/foo/'') ''/foo/bar'' \<longleftrightarrow>
     prefix (Split CHR ''/'' (TrimSuffix ''/foo/'' ''/'')) (Split CHR ''/'' ''/foo/bar'')"
  by (rule prefix_path_semantics [OF simple_match_contract])
    (simp_all add: plain_path_def plain_request_def request_char_def pattern_char_def HasPrefix_def char_range_defs)

section \<open>Redirects\<close>

text \<open>
  The redirect middleware leaves a route alone when neither annotation is set; otherwise it
  appends one \<open>static_response\<close> to the annotated location, with a status code that is a number in
  the range 300 to 399 or 401.
\<close>

lemma redirect_result:
  assumes "RedirectPlugin_IngressHandler inp = Ok r"
  shows "let perm = getAnnotation (InIngress inp) permanentRedirectAnnotation;
             temp = getAnnotation (InIngress inp) temporaryRedirectAnnotation
         in if perm = [] \<and> temp = [] then r = InRoute inp
            else \<exists>code n.
              r = append_handler (RawModule ''handler'' ''static_response''
                    (StaticResponse code [(''Location'', [if temp = [] then perm else temp])]))
                    (InRoute inp) \<and>
              Atoi code = Some n \<and> (300 \<le> n \<and> n \<le> 399 \<or> n = 401)"
proof -
  have "Atoi ''301'' = Some 301" "Atoi ''302'' = Some 302" by code_simp+
  then show ?thesis
    using assms
    by (auto simp: RedirectPlugin_IngressHandler_def redirect_code_def Let_def
        split: if_splits option.splits)
qed

definition sample_redirect :: IngressMiddlewareInput where
  "sample_redirect =
     \<lparr>InConfig = NewConfig, InStore = NewStore sample_options [] None,
      InIngress = sample_ingress [''caddy.ingress.kubernetes.io/permanent-redirect'' \<mapsto> ''/new''] [] [],
      InRule = \<lparr>Host = [], HTTP = None\<rparr>,
      InPath = \<lparr>Path = ''/'', PathTypeOf = None, BackendService = None\<rparr>,
      InRoute = \<lparr>HandlersRaw = [], MatcherSetsRaw = []\<rparr>\<rparr>"

lemma redirect_result_example:
  "\<exists>code n. RedirectPlugin_IngressHandler sample_redirect =
       Ok (append_handler (RawModule ''handler'' ''static_response''
             (StaticResponse code [(''Location'', [''/new''])])) (InRoute sample_redirect)) \<and>
     Atoi code = Some n \<and> (300 \<le> n \<and> n \<le> 399 \<or> n = 401)"
proof -
  have perm: "getAnnotation (InIngress sample_redirect) permanentRedirectAnnotation = ''/new''"
    and temp: "getAnnotation (InIngress sample_redirect) temporaryRedirectAnnotation = []"
    and code: "getAnnotation (InIngress sample_redirect) permanentRedirectCodeAnnotation = []"
    by (simp_all add: getAnnotation_def sample_redirect_def sample_ingress_def annotation_name_defs
        annotationPrefix_def)
  then obtain r where r: "RedirectPlugin_IngressHandler sample_redirect = Ok r"
    by (simp add: RedirectPlugin_IngressHandler_def redirect_code_def)
  from redirect_result [OF r] perm temp r show ?thesis by (simp add: Let_def)
qed

text \<open>
  The redirect middleware fails exactly when both annotations are set or the code of a
  permanent redirect is not a number in the range 300 to 399 or 401. It never panics.
\<close>

lemma redirect_rejected:
  "let perm = getAnnotation (InIngress inp) permanentRedirectAnnotation;
       temp = getAnnotation (InIngress inp) temporaryRedirectAnnotation;
       code = getAnnotation (InIngress inp) permanentRedirectCodeAnnotation;
       accepted = (perm = [] \<or> temp = [] \<and> (code = [] \<or> Atoi code \<in> Some ` ({300..399} \<union> {401})))
   in if accepted then is_Ok (RedirectPlugin_IngressHandler inp)
      else \<exists>e. RedirectPlugin_IngressHandler inp = Err e"
  by (auto simp: RedirectPlugin_IngressHandler_def redirect_code_def Let_def
      split: option.split)

section \<open>Trusted proxies\<close>

lemma parseTrustedProxies_iff:
  "parseTrustedProxies entries = Ok ps \<longleftrightarrow> list_all2 (\<lambda>e p. parseTrustedProxy e = Ok p) entries ps"
  by (simp add: parseTrustedProxies_def range_loop_collect)

lemma parseTrustedProxy_form:
  assumes "parseTrustedProxy e = Ok s"
  shows "\<exists>a bits. wf_addr a \<and> Zone a = [] \<and> bits \<le> BitLen a \<and> s = Prefix_String (PrefixFrom a bits)"
proof (cases "Contains (TrimSpace e) CHR ''/''")
  case True
  with assms obtain p where "ParsePrefix (TrimSpace e) = Some p" and "s = Prefix_String p"
    by (auto simp: parseTrustedProxy_def Let_def split: option.splits)
  with ParsePrefix_wf show ?thesis by metis
next
  case False
  with assms obtain a where "ParseAddr (TrimSpace e) = Some a"
    and s: "s = Prefix_String (PrefixFrom a (BitLen a))"
    by (auto simp: parseTrustedProxy_def Let_def split: option.splits)
  then have "wf_addr (withoutZone a)" by (simp add: ParseAddr_wf)
  moreover have "PrefixFrom (withoutZone a) n = PrefixFrom a n" for n by (simp add: PrefixFrom_def)
  ultimately show ?thesis
    using s by (intro exI [of _ "withoutZone a"] exI [of _ "BitLen a"]) simp
qed

lemma parseTrustedProxy_idem:
  assumes "parseTrustedProxy e = Ok s"
  shows "parseTrustedProxy s = Ok s \<and> (\<exists>p. ParsePrefix s = Some p \<and> Prefix_String p = s)"
proof -
  from parseTrustedProxy_form [OF assms] obtain a bits where
    a: "wf_addr a" "Zone a = []" "bits \<le> BitLen a" and s: "s = Prefix_String (PrefixFrom a bits)"
    by blast
  then have p: "ParsePrefix s = Some (PrefixFrom a bits)"
    by (simp add: ParsePrefix_Prefix_String ParseAddr_Addr_String)
  moreover have "Contains s CHR ''/''"
    by (simp add: s Prefix_String_def Contains_def)
  moreover have "TrimSpace s = s"
    unfolding s by (rule TrimSpace_Prefix_String [OF a(1,2)])
  ultimately show ?thesis by (auto simp: parseTrustedProxy_def s [symmetric])
qed

text \<open>
  C23. The trusted proxies written into the configuration are one canonical prefix per entry of
  the annotation: each parses as a prefix that prints as itself, so Caddy accepts it, and parsing
  the list again changes nothing.
\<close>

theorem trusted_proxies_canonical:
  assumes "parseTrustedProxies entries = Ok ps"
  shows "length ps = length entries \<and> parseTrustedProxies ps = Ok ps \<and>
     (\<forall>s \<in> set ps. \<exists>p. ParsePrefix s = Some p \<and> Prefix_String p = s)"
proof -
  from assms have all: "list_all2 (\<lambda>e p. parseTrustedProxy e = Ok p) entries ps"
    by (simp add: parseTrustedProxies_iff)
  have idem: "parseTrustedProxy s = Ok s \<and> (\<exists>p. ParsePrefix s = Some p \<and> Prefix_String p = s)"
    if "s \<in> set ps" for s
    using that all parseTrustedProxy_idem by (auto simp: list_all2_conv_all_nth in_set_conv_nth)
  then have "list_all2 (\<lambda>e p. parseTrustedProxy e = Ok p) ps ps"
    by (auto simp: list_all2_same)
  then have "parseTrustedProxies ps = Ok ps" by (simp add: parseTrustedProxies_iff)
  with list_all2_lengthD [OF all] idem show ?thesis by simp
qed

theorem trusted_proxies_canonical_witness:
  "parseTrustedProxies ['' 10.0.0.1''] = Ok [''10.0.0.1/32''] \<and>
   parseTrustedProxies [''10.0.0.1/32''] = Ok [''10.0.0.1/32'']"
proof -
  have "parseTrustedProxies ['' 10.0.0.1''] = Ok [''10.0.0.1/32'']" by code_simp
  from this trusted_proxies_canonical [OF this] show ?thesis by simp
qed

end
