(* ===== verification/Global_Plugins.thy ===== *)
theory Global_Plugins
  imports Ingress_Plugins
begin

text \<open>
  The package \<open>internal/caddy/global\<close>: the plugins that edit the whole configuration, among them
  \<open>IngressPlugin\<close>, which runs the middlewares of \<open>internal/caddy/ingress\<close> on every path, and
  \<open>IngressSortPlugin\<close>. A handler \<open>GlobalHandler(config, store) error\<close> that edits the configuration
  in place is a function from the configuration and the store to the new configuration or an error.

  The contract of a handler is the locale \<open>global_middleware\<close> (the interface \<open>GlobalMiddleware\<close>):
  it keeps the shape of the configuration the accessors rely on and does not panic on a store the
  controller can hold. It is interpreted on the seven plugins.
\<close>

section \<open>The plugins\<close>

datatype plugin =
    ConfigMapPlugin
  | HealthzPlugin
  | IngressPlugin
  | IngressSortPlugin
  | MetricsPlugin
  | SecretsStorePlugin
  | TLSPlugin
  | MatcherPlugin
  | RedirectPlugin
  | ReverseProxyPlugin
  | RewritePlugin

text \<open>The methods \<open>IngressPlugin() PluginInfo\<close>.\<close>

definition ConfigMapPlugin_info :: "plugin PluginInfo" where
  "ConfigMapPlugin_info = \<lparr>PluginName = ''configmap'', Priority = 0, New = ConfigMapPlugin\<rparr>"

definition HealthzPlugin_info :: "plugin PluginInfo" where
  "HealthzPlugin_info = \<lparr>PluginName = ''healthz'', Priority = -20, New = HealthzPlugin\<rparr>"

definition IngressPlugin_info :: "plugin PluginInfo" where
  "IngressPlugin_info = \<lparr>PluginName = ''ingress'', Priority = 0, New = IngressPlugin\<rparr>"

definition IngressSortPlugin_info :: "plugin PluginInfo" where
  "IngressSortPlugin_info = \<lparr>PluginName = ''ingress_sort'', Priority = -2, New = IngressSortPlugin\<rparr>"

definition MetricsPlugin_info :: "plugin PluginInfo" where
  "MetricsPlugin_info = \<lparr>PluginName = ''metrics'', Priority = 0, New = MetricsPlugin\<rparr>"

definition SecretsStorePlugin_info :: "plugin PluginInfo" where
  "SecretsStorePlugin_info =
     \<lparr>PluginName = ''secrets_store'', Priority = 0, New = SecretsStorePlugin\<rparr>"

definition TLSPlugin_info :: "plugin PluginInfo" where
  "TLSPlugin_info = \<lparr>PluginName = ''tls'', Priority = 0, New = TLSPlugin\<rparr>"

definition MatcherPlugin_info :: "plugin PluginInfo" where
  "MatcherPlugin_info = \<lparr>PluginName = ''ingress.matcher'', Priority = 0, New = MatcherPlugin\<rparr>"

definition RedirectPlugin_info :: "plugin PluginInfo" where
  "RedirectPlugin_info = \<lparr>PluginName = ''ingress.redirect'', Priority = 10, New = RedirectPlugin\<rparr>"

definition ReverseProxyPlugin_info :: "plugin PluginInfo" where
  "ReverseProxyPlugin_info =
     \<lparr>PluginName = ''ingress.reverseproxy'', Priority = -10, New = ReverseProxyPlugin\<rparr>"

definition RewritePlugin_info :: "plugin PluginInfo" where
  "RewritePlugin_info = \<lparr>PluginName = ''ingress.rewrite'', Priority = 10, New = RewritePlugin\<rparr>"

lemmas plugin_info_defs =
  ConfigMapPlugin_info_def HealthzPlugin_info_def IngressPlugin_info_def IngressSortPlugin_info_def
  MetricsPlugin_info_def SecretsStorePlugin_info_def TLSPlugin_info_def MatcherPlugin_info_def
  RedirectPlugin_info_def ReverseProxyPlugin_info_def RewritePlugin_info_def

text \<open>
  The plugins the two packages register in their \<open>init\<close> functions, in the order Go runs them,
  and the registry that results.
\<close>

definition registered :: "plugin PluginInfo list" where
  "registered =
     [ConfigMapPlugin_info, HealthzPlugin_info, IngressPlugin_info, IngressSortPlugin_info,
      MetricsPlugin_info, SecretsStorePlugin_info, TLSPlugin_info, MatcherPlugin_info,
      RedirectPlugin_info, ReverseProxyPlugin_info, RewritePlugin_info]"

definition init_registry :: "plugin registry result" where
  "init_registry = range_loop RegisterPlugin registered empty_registry"

text \<open>
  The type assertion \<open>plugin.(converter.IngressMiddleware)\<close>: the handler of a plugin that
  implements the interface. It fails on the other plugins and on a nil interface.
\<close>

fun as_IngressMiddleware :: "plugin option \<Rightarrow> IngressMiddleware option" where
  "as_IngressMiddleware (Some MatcherPlugin) = Some MatcherPlugin_IngressHandler"
| "as_IngressMiddleware (Some RedirectPlugin) = Some RedirectPlugin_IngressHandler"
| "as_IngressMiddleware (Some ReverseProxyPlugin) = Some ReverseProxyPlugin_IngressHandler"
| "as_IngressMiddleware (Some RewritePlugin) = Some RewritePlugin_IngressHandler"
| "as_IngressMiddleware _ = None"

section \<open>The handlers\<close>

type_synonym GlobalMiddleware = "Config \<Rightarrow> Store \<Rightarrow> Config result"

definition acmeIssuer :: "ConfigMapOptions \<Rightarrow> module_value" where
  "acmeIssuer cfgMap =
     ACMEIssuer (AcmeCA cfgMap) (Email cfgMap)
       (if AcmeEABKeyID cfgMap \<noteq> [] \<and> AcmeEABMacKey cfgMap \<noteq> []
        then Some (AcmeEABKeyID cfgMap, AcmeEABMacKey cfgMap) else None)"

definition automation_of :: "ConfigMapOptions \<Rightarrow> AutomationConfig" where
  "automation_of cfgMap =
     \<lparr>OnDemandConfig = (if OnDemandTLS cfgMap then Some (OnDemandAsk cfgMap) else None),
      AutomationOCSPCheckInterval = OCSPCheckInterval cfgMap,
      Policies = [\<lparr>IssuersRaw = [RawModule ''module'' ''acme'' (acmeIssuer cfgMap)],
                   OnDemandPolicy = OnDemandTLS cfgMap\<rparr>]\<rparr>"

definition ConfigMapPlugin_GlobalHandler :: GlobalMiddleware where
  "ConfigMapPlugin_GlobalHandler config store =
     bind_result (GetTLSApp config) (\<lambda>tlsApp.
     bind_result (GetHTTPServer config) (\<lambda>httpServer.
     bind_result (deref (StoreConfigMap store)) (\<lambda>cfgMap.
       let config1 = (if Debug cfgMap then config\<lparr>Logging := [''default'' \<mapsto> ''DEBUG'']\<rparr> else config);
           config2 = (if AcmeCA cfgMap \<noteq> [] \<or> Email cfgMap \<noteq> []
                      then set_tls (tlsApp\<lparr>Automation := Some (automation_of cfgMap)\<rparr>) config1
                      else config1)
       in if ProxyProtocol cfgMap
          then bind_result (deref httpServer) (\<lambda>srv.
                 Ok (set_server HTTPServer
                       (srv\<lparr>ListenerWrappersRaw := [RawObject [(''wrapper'', ''proxy_protocol'')],
                                                  RawObject [(''wrapper'', ''tls'')]]\<rparr>) config2))
          else Ok config2)))"

definition path_route :: "raw_message \<Rightarrow> string \<Rightarrow> Route" where
  "path_route h path =
     \<lparr>HandlersRaw = [h], MatcherSetsRaw = [[''path'' \<mapsto> RawStrings [path]]]\<rparr>"

text \<open>\<open>config.GetMetricsServer().Routes = append(config.GetMetricsServer().Routes, r)\<close>.\<close>

definition append_metrics_route :: "Route \<Rightarrow> Config \<Rightarrow> Config result" where
  "append_metrics_route r config =
     bind_result (GetMetricsServer config) (\<lambda>server.
     bind_result (deref server) (\<lambda>srv.
       Ok (set_server MetricsServer (srv\<lparr>Routes := Routes srv @ [r]\<rparr>) config)))"

definition healthzRoute :: Route where
  "healthzRoute = path_route (RawModule ''handler'' ''static_response'' (StaticResponse (Itoa 200) [])) ''/healthz''"

definition HealthzPlugin_GlobalHandler :: GlobalMiddleware where
  "HealthzPlugin_GlobalHandler config store = append_metrics_route healthzRoute config"

definition metricsRoute :: Route where
  "metricsRoute = path_route (RawObject [(''handler'', ''metrics'')]) ''/metrics''"

definition MetricsPlugin_GlobalHandler :: GlobalMiddleware where
  "MetricsPlugin_GlobalHandler config store =
     bind_result (deref (StoreConfigMap store)) (\<lambda>cfgMap.
       if Metrics cfgMap then append_metrics_route metricsRoute config else Ok config)"

definition SecretsStorePlugin_GlobalHandler :: GlobalMiddleware where
  "SecretsStorePlugin_GlobalHandler config store =
     Ok (config\<lparr>StorageOf := \<lparr>System = ''secret_store'', StorageNamespace = ConfigNamespace store,
                           StorageLeaseID = OptionsLeaseID (StoreOptions store)\<rparr>\<rparr>)"

subsection \<open>TLS\<close>

text \<open>
  \<open>GetCertFolder\<close>: the folder is computed at the first call, from the environment variable
  \<open>RUNTIME_DIRECTORY\<close>, and kept in the package variable \<open>certFolder\<close>. The result is both.
\<close>

definition GetCertFolder :: "string \<Rightarrow> string \<Rightarrow> string" where
  "GetCertFolder runtimeDir certFolder =
     (if certFolder = [] then
        (if runtimeDir \<noteq> [] then filepath_Join [runtimeDir, ''certs''] else ''/etc/caddy/certs'')
      else certFolder)"

definition add_host :: "string \<Rightarrow> string list \<Rightarrow> string list" where
  "add_host h hosts = (if h \<in> set hosts then hosts else hosts @ [h])"

definition tls_hosts :: "Ingress list \<Rightarrow> string list" where
  "tls_hosts ings = fold (\<lambda>ing. fold (\<lambda>tlsRule. fold add_host (Hosts tlsRule)) (TLS ing)) ings []"

definition TLSPlugin_GlobalHandler :: "string \<Rightarrow> GlobalMiddleware" where
  "TLSPlugin_GlobalHandler certFolder config store =
     bind_result (GetTLSApp config) (\<lambda>tlsApp.
     bind_result (GetHTTPServer config) (\<lambda>httpServer.
       let hosts = tls_hosts (Ingresses store)
       in if 0 < length hosts then
            (let config1 = set_tls (tlsApp\<lparr>CertificatesRaw :=
                   (CertificatesRaw tlsApp)(''load_folders'' \<mapsto> RawStrings [certFolder])\<rparr>) config
             in bind_result (deref httpServer) (\<lambda>srv.
                bind_result (deref (AutoHTTPS srv)) (\<lambda>auto.
                  Ok (set_server HTTPServer (srv\<lparr>AutoHTTPS := Some (auto\<lparr>SkipCerts := hosts\<rparr>)\<rparr>) config1))))
          else Ok config))"

subsection \<open>Ingresses\<close>

definition call_middleware ::
  "Config \<Rightarrow> Store \<Rightarrow> Ingress \<Rightarrow> IngressRule \<Rightarrow> HTTPIngressPath \<Rightarrow>
     IngressMiddleware \<Rightarrow> Route \<Rightarrow> Route result" where
  "call_middleware config store ing rule path middleware r =
     middleware \<lparr>InConfig = config, InStore = store, InIngress = ing, InRule = rule,
                 InPath = path, InRoute = r\<rparr>"

definition make_route ::
  "IngressMiddleware list \<Rightarrow> Config \<Rightarrow> Store \<Rightarrow>
     Ingress \<Rightarrow> IngressRule \<Rightarrow> HTTPIngressPath \<Rightarrow> Route result" where
  "make_route ingressHandlers config store ing rule path =
     range_loop (call_middleware config store ing rule path) ingressHandlers
       \<lparr>HandlersRaw = [], MatcherSetsRaw = []\<rparr>"

definition make_routes ::
  "IngressMiddleware list \<Rightarrow> Config \<Rightarrow> Store \<Rightarrow> Route list result" where
  "make_routes ingressHandlers config store =
     range_loop (\<lambda>ing.
       range_loop (\<lambda>rule routes.
         bind_result (deref (HTTP rule)) (\<lambda>paths.
           range_loop (\<lambda>path routes.
               bind_result (make_route ingressHandlers config store ing rule path)
                 (\<lambda>r. Ok (routes @ [r])))
             paths routes))
         (Rules ing))
       (Ingresses store) []"

definition ingress_handlers :: "plugin option list \<Rightarrow> IngressMiddleware list" where
  "ingress_handlers ps = List.map_filter as_IngressMiddleware ps"

definition IngressPlugin_GlobalHandler ::
  "(plugin PluginInfo list \<Rightarrow> plugin PluginInfo list) \<Rightarrow> plugin registry \<Rightarrow> GlobalMiddleware" where
  "IngressPlugin_GlobalHandler iter reg config store =
     bind_result
       (make_routes (ingress_handlers (Plugins iter reg (PluginsOrder (StoreOptions store)))) config store)
       (\<lambda>routes.
     bind_result (GetHTTPServer config) (\<lambda>server.
     bind_result (deref server) (\<lambda>srv.
       Ok (set_server HTTPServer (srv\<lparr>Routes := routes\<rparr>) config))))"

subsection \<open>Sorting the routes\<close>

text \<open>
  \<open>getFirstItemFromJSON\<close>: a missing entry is an empty message, which does not unmarshal, and
  neither does a string or an object into a list of strings; an empty list is an index panic.
\<close>

fun getFirstItemFromJSON :: "raw_message option \<Rightarrow> string result" where
  "getFirstItemFromJSON (Some (RawStrings [])) = Panic IndexOutOfRange"
| "getFirstItemFromJSON (Some (RawStrings (x # xs))) = Ok x"
| "getFirstItemFromJSON _ = Ok []"

text \<open>\<open>getFirstItemFromJSON(route.MatcherSetsRaw[0]["path"])\<close>.\<close>

definition route_path :: "Route \<Rightarrow> string result" where
  "route_path r =
     (case MatcherSetsRaw r of
        [] \<Rightarrow> Panic IndexOutOfRange
      | m # _ \<Rightarrow> getFirstItemFromJSON (m ''path''))"

definition path_less :: "string \<Rightarrow> string \<Rightarrow> bool" where
  "path_less iPath jPath =
     (let iPrefixed = HasSuffix iPath ''*''; jPrefixed = HasSuffix jPath ''*''
      in if iPrefixed = jPrefixed then length jPath < length iPath
         else if jPath = [] \<or> iPath = [] then jPath = []
         else jPrefixed)"

text \<open>
  \<open>sortRoutes\<close>: the comparison reads the paths of both routes. A sort of two or more elements
  compares each of them, so a route whose path cannot be read panics then, and only then.
\<close>

fun read_paths :: "Route list \<Rightarrow> (string \<times> Route) list result" where
  "read_paths [] = Ok []"
| "read_paths (r # rs) =
     bind_result (route_path r) (\<lambda>p. bind_result (read_paths rs) (\<lambda>ps. Ok ((p, r) # ps)))"

definition sortRoutes :: "Route list \<Rightarrow> Route list result" where
  "sortRoutes routes =
     (if length routes < 2 then Ok routes
      else bind_result (read_paths routes) (\<lambda>keyed.
             Ok (map snd (slice_stable (\<lambda>i j. path_less (fst i) (fst j)) keyed))))"

definition IngressSortPlugin_GlobalHandler :: GlobalMiddleware where
  "IngressSortPlugin_GlobalHandler config store =
     bind_result (deref (StoreConfigMap store)) (\<lambda>cfgMap.
       if \<not> ExperimentalSmartSort cfgMap then Ok config
       else bind_result (GetHTTPServer config) (\<lambda>server.
            bind_result (deref server) (\<lambda>srv.
            bind_result (sortRoutes (Routes srv)) (\<lambda>routes.
              Ok (set_server HTTPServer (srv\<lparr>Routes := routes\<rparr>) config)))))"

lemmas global_handler_defs [plugin_defs] =
  ConfigMapPlugin_GlobalHandler_def HealthzPlugin_GlobalHandler_def MetricsPlugin_GlobalHandler_def
  SecretsStorePlugin_GlobalHandler_def TLSPlugin_GlobalHandler_def IngressPlugin_GlobalHandler_def
  IngressSortPlugin_GlobalHandler_def append_metrics_route_def

section \<open>The registered plugins\<close>

lemma registered_names_distinct: "distinct (map PluginName registered)"
  by (simp add: registered_def plugin_info_defs)

lemma init_registry_Ok: "init_registry = Ok (registry_of registered)"
  unfolding init_registry_def register_all_Ok using registered_names_distinct by blast

text \<open>The plugins in the order they run, for an order slice; every plugin runs once.\<close>

definition plugins_in_order :: "string list \<Rightarrow> plugin list" where
  "plugins_in_order order = map New (sortPlugins registered order)"

abbreviation visits_all :: "('a list \<Rightarrow> 'a list) \<Rightarrow> bool" where
  "visits_all iter \<equiv> \<forall>xs. mset (iter xs) = mset xs"

lemma Plugins_registered:
  assumes "visits_all iter"
  shows "Plugins iter (registry_of registered) order = map Some (plugins_in_order order)"
proof -
  have "mset (iter (map snd (plugins (registry_of registered)))) = mset registered"
    using assms by (simp add: mset_registry_of del: mset_map)
  then have "sortPlugins (iter (map snd (plugins (registry_of registered)))) order
      = sortPlugins registered order"
    unfolding sortPlugins_def using registered_names_distinct
    by (intro plugin_order.slice_stable_input_order)
      (auto, metis mset_eq_imp_distinct_iff mset_map)
  then show ?thesis
    using instance_registry_of [OF registered_names_distinct]
    by (simp add: Plugins_def plugins_in_order_def sortPlugins_def)
qed

lemma mset_plugins_in_order:
  "mset (plugins_in_order order) =
     {#ConfigMapPlugin, HealthzPlugin, IngressPlugin, IngressSortPlugin, MetricsPlugin,
       SecretsStorePlugin, TLSPlugin, MatcherPlugin, RedirectPlugin, ReverseProxyPlugin, RewritePlugin#}"
proof -
  have "mset (plugins_in_order order) = image_mset New (mset registered)"
    by (simp add: plugins_in_order_def sortPlugins_def)
  then show ?thesis by (simp add: registered_def plugin_info_defs)
qed

lemma plugins_default_order:
  "plugins_in_order [] =
     [RedirectPlugin, RewritePlugin, ConfigMapPlugin, IngressPlugin, MatcherPlugin, MetricsPlugin,
      SecretsStorePlugin, TLSPlugin, IngressSortPlugin, ReverseProxyPlugin, HealthzPlugin]"
  by (simp add: plugins_in_order_def sortPlugins_def registered_def plugin_info_defs plugin_less_def
     getOrderIndex_def)

text \<open>
  An order slice that names no registered plugin, such as the one of a run without the flag
  \<open>-plugins-order\<close>, which is the list of one empty string.
\<close>

definition names_no_plugin :: "string list \<Rightarrow> bool" where
  "names_no_plugin order \<longleftrightarrow> list_all (\<lambda>p. PluginName p \<notin> set order) registered"

lemma plugins_unnamed:
  assumes "names_no_plugin order"
  shows "plugins_in_order order = plugins_in_order []"
proof -
  have "plugin_less order p q = plugin_less [] p q" if "p \<in> set registered" "q \<in> set registered" for p q
    using that assms by (simp add: plugin_less_def names_no_plugin_def list_all_iff)
  then show ?thesis
    unfolding plugins_in_order_def sortPlugins_def by (metis slice_stable_cong)
qed

lemma names_no_plugin_flags: "names_no_plugin []" "names_no_plugin [[]]"
  by (simp_all add: names_no_plugin_def registered_def plugin_info_defs)

section \<open>Chains of middlewares\<close>

fun sets_of :: "plugin \<Rightarrow> nat" where
  "sets_of MatcherPlugin = 1"
| "sets_of _ = 0"

lemma as_IngressMiddleware_contract:
  "as_IngressMiddleware (Some p) = Some h \<Longrightarrow> ingress_middleware h (sets_of p)"
  by (cases p) (auto intro: matcher_mw.ingress_middleware_axioms redirect_mw.ingress_middleware_axioms
      reverseproxy_mw.ingress_middleware_axioms rewrite_mw.ingress_middleware_axioms
      simp flip: One_nat_def)

definition is_ingress_plugin :: "plugin \<Rightarrow> bool" where
  "is_ingress_plugin p \<longleftrightarrow> as_IngressMiddleware (Some p) \<noteq> None"

lemma ingress_handlers_contract:
  "list_all2 ingress_middleware (ingress_handlers (map Some ps))
     (map sets_of (filter is_ingress_plugin ps))"
proof (induction ps)
  case Nil
  then show ?case by (simp add: ingress_handlers_def List.map_filter_def)
next
  case (Cons p ps)
  then show ?case
    by (auto simp: ingress_handlers_def is_ingress_plugin_def List.map_filter_simps
        intro: as_IngressMiddleware_contract)
qed

lemma middleware_chain:
  assumes "list_all2 ingress_middleware hs ns"
    and "range_loop (call_middleware config store ing rule path) hs r = Ok r'"
  shows "route_extends r r'"
    and "length (MatcherSetsRaw r') = length (MatcherSetsRaw r) + sum_list ns"
    and "list_all matcher_ok (MatcherSetsRaw r) \<Longrightarrow> list_all matcher_ok (MatcherSetsRaw r')"
proof -
  have "route_extends r r' \<and>
      length (MatcherSetsRaw r') = length (MatcherSetsRaw r) + sum_list ns \<and>
      (list_all matcher_ok (MatcherSetsRaw r) \<longrightarrow> list_all matcher_ok (MatcherSetsRaw r'))"
    using assms
  proof (induction arbitrary: r rule: list_all2_induct)
    case Nil
    then show ?case by simp
  next
    case (Cons h hs n ns)
    then obtain r1 where r1: "call_middleware config store ing rule path h r = Ok r1"
      and rest: "range_loop (call_middleware config store ing rule path) hs r1 = Ok r'" by auto
    let ?inp = "\<lparr>InConfig = config, InStore = store, InIngress = ing, InRule = rule,
                 InPath = path, InRoute = r\<rparr>"
    from r1 have step: "h ?inp = Ok r1" by (simp add: call_middleware_def)
    have "route_extends r r1" and "length (MatcherSetsRaw r1) = length (MatcherSetsRaw r) + n"
      and "list_all matcher_ok (MatcherSetsRaw r) \<Longrightarrow> list_all matcher_ok (MatcherSetsRaw r1)"
      using ingress_middleware.appends [OF Cons(1) step]
        ingress_middleware.matcher_sets [OF Cons(1) step]
        ingress_middleware.keeps_matchers [OF Cons(1) step] by simp_all
    with Cons.IH [OF rest] show ?case by (auto intro: route_extends_trans)
  qed
  then show "route_extends r r'"
    and "length (MatcherSetsRaw r') = length (MatcherSetsRaw r) + sum_list ns"
    and "list_all matcher_ok (MatcherSetsRaw r) \<Longrightarrow> list_all matcher_ok (MatcherSetsRaw r')"
    by blast+
qed

lemma middleware_chain_no_panic:
  assumes "list_all2 ingress_middleware hs ns" and "wf_path path"
  shows "range_loop (call_middleware config store ing rule path) hs r \<noteq> Panic p"
  using assms(1)
proof (induction arbitrary: r rule: list_all2_induct)
  case (Cons h hs n ns)
  have "call_middleware config store ing rule path h r \<noteq> Panic p"
    unfolding call_middleware_def
    by (rule ingress_middleware.no_panic [OF Cons(1)]) (simp add: assms(2))
  with Cons.IH show ?case
    by (cases "call_middleware config store ing rule path h r") auto
qed simp

lemma middleware_chain_config:
  assumes "list_all2 ingress_middleware hs ns"
  shows "range_loop (call_middleware config store ing rule path) hs r
       = range_loop (call_middleware config' store ing rule path) hs r"
  using assms
proof (induction arbitrary: r rule: list_all2_induct)
  case (Cons h hs n ns)
  have "call_middleware config store ing rule path h = call_middleware config' store ing rule path h"
    using ingress_middleware.ignores_config [OF Cons(1), of config "\<lparr>InConfig = config', InStore = store,
      InIngress = ing, InRule = rule, InPath = path, InRoute = _\<rparr>"]
    by (simp add: fun_eq_iff call_middleware_def)
  with Cons.IH show ?case
    by (simp cong: bind_result_cong)
qed simp

section \<open>The routes of the ingresses\<close>

text \<open>The paths of a list of ingresses with their rules, in the order of the loops.\<close>

definition rule_paths :: "IngressRule \<Rightarrow> HTTPIngressPath list" where
  "rule_paths rule = (case HTTP rule of None \<Rightarrow> [] | Some paths \<Rightarrow> paths)"

definition ingress_paths :: "Ingress list \<Rightarrow> (Ingress \<times> IngressRule \<times> HTTPIngressPath) list" where
  "ingress_paths ings =
     concat (map (\<lambda>ing. concat (map (\<lambda>rule. map (\<lambda>path. (ing, rule, path)) (rule_paths rule)) (Rules ing))) ings)"

lemma make_routes_collect:
  assumes "make_routes hs config store = Ok routes"
  shows "list_all2 (\<lambda>(ing, rule, path) r. make_route hs config store ing rule path = Ok r)
           (ingress_paths (Ingresses store)) routes"
proof -
  let ?R = "\<lambda>(ing, rule, path) r. make_route hs config store ing rule path = Ok r"
  let ?of_rule = "\<lambda>ing rule. map (\<lambda>path. (ing, rule, path)) (rule_paths rule)"
  have rule: "\<exists>qs. acc' = acc @ qs \<and> list_all2 ?R (?of_rule ing rule) qs"
    if "bind_result (deref (HTTP rule)) (\<lambda>paths.
           range_loop (\<lambda>path routes.
               bind_result (make_route hs config store ing rule path) (\<lambda>r. Ok (routes @ [r])))
             paths acc) = Ok acc'" for ing rule acc acc'
    using that by (auto simp: range_loop_collect rule_paths_def list_all2_map1)
  have ing: "\<exists>qs. acc' = acc @ qs \<and> list_all2 ?R (concat (map (?of_rule ing) (Rules ing))) qs"
    if "range_loop (\<lambda>rule routes. bind_result (deref (HTTP rule)) (\<lambda>paths.
           range_loop (\<lambda>path routes.
               bind_result (make_route hs config store ing rule path) (\<lambda>r. Ok (routes @ [r])))
             paths routes)) (Rules ing) acc = Ok acc'" for ing acc acc'
  proof -
    have "\<exists>qss. acc' = acc @ concat qss \<and>
        list_all2 (\<lambda>rule. list_all2 ?R (?of_rule ing rule)) (Rules ing) qss"
      by (rule range_loop_concat [OF _ that]) (rule rule)
    then obtain qss where
      "acc' = acc @ concat qss" and "list_all2 (\<lambda>rule. list_all2 ?R (?of_rule ing rule)) (Rules ing) qss"
      by blast
    with list_all2_concat [OF this(2)] show ?thesis by blast
  qed
  have "\<exists>qss. routes = [] @ concat qss \<and>
      list_all2 (\<lambda>ing. list_all2 ?R (concat (map (?of_rule ing) (Rules ing)))) (Ingresses store) qss"
    by (rule range_loop_concat [OF _ assms [unfolded make_routes_def]]) (rule ing)
  then obtain qss where "routes = concat qss"
    and "list_all2 (\<lambda>ing qs. list_all2 ?R (concat (map (?of_rule ing) (Rules ing))) qs) (Ingresses store) qss"
    by auto
  with list_all2_concat [OF this(2)] show ?thesis by (simp only: ingress_paths_def)
qed

text \<open>
  The stores the conversion is made for: a config map, and ingresses whose rules all have an
  \<open>http\<close> section and whose paths all have a type and a service as their backend. The API server
  also admits rules without \<open>http\<close> and resource backends; the handlers dereference their nil pointers.
\<close>

definition wf_ingress :: "Ingress \<Rightarrow> bool" where
  "wf_ingress ing \<longleftrightarrow>
     list_all (\<lambda>rule. case HTTP rule of None \<Rightarrow> False | Some paths \<Rightarrow> list_all wf_path paths) (Rules ing)"

definition wf_store :: "Store \<Rightarrow> bool" where
  "wf_store s \<longleftrightarrow> StoreConfigMap s \<noteq> None \<and> list_all wf_ingress (Ingresses s)"

lemma make_routes_no_panic:
  assumes "list_all2 ingress_middleware hs ns" and "wf_store store"
  shows "make_routes hs config store \<noteq> Panic p"
  unfolding make_routes_def
proof (intro range_loop_no_panic)
  fix ing rule routes
  assume "ing \<in> set (Ingresses store)" and "rule \<in> set (Rules ing)"
  with assms(2) obtain paths where paths: "HTTP rule = Some paths" "list_all wf_path paths"
    by (force simp: wf_store_def wf_ingress_def list_all_iff split: option.splits)
  have "range_loop (\<lambda>path routes.
      bind_result (make_route hs config store ing rule path) (\<lambda>r. Ok (routes @ [r]))) paths routes \<noteq> Panic p"
  proof (rule range_loop_no_panic)
    fix path s
    assume "path \<in> set paths"
    with paths have "make_route hs config store ing rule path \<noteq> Panic p"
      unfolding make_route_def by (intro middleware_chain_no_panic [OF assms(1)]) (auto simp: list_all_iff)
    then show "bind_result (make_route hs config store ing rule path) (\<lambda>r. Ok (s @ [r])) \<noteq> Panic p"
      by (cases "make_route hs config store ing rule path") auto
  qed
  with paths show "bind_result (deref (HTTP rule)) (\<lambda>paths. range_loop (\<lambda>path routes.
      bind_result (make_route hs config store ing rule path) (\<lambda>r. Ok (routes @ [r]))) paths routes) \<noteq> Panic p"
    by simp
qed

text \<open>A route with the matchers \<open>sortRoutes\<close> needs.\<close>

definition route_ok :: "Route \<Rightarrow> bool" where
  "route_ok r \<longleftrightarrow> length (MatcherSetsRaw r) = 1 \<and> list_all matcher_ok (MatcherSetsRaw r)"

lemma sets_in_order: "sum_list (map sets_of (filter is_ingress_plugin (plugins_in_order order))) = 1"
proof -
  have "sum_list (map sets_of (filter is_ingress_plugin (plugins_in_order order)))
      = sum_mset (image_mset sets_of (filter_mset is_ingress_plugin (mset (plugins_in_order order))))"
    by (simp flip: sum_mset_sum_list)
  also have "\<dots> = 1" by (simp add: mset_plugins_in_order is_ingress_plugin_def)
  finally show ?thesis .
qed

lemma make_route_ok:
  assumes "make_route (ingress_handlers (map Some (plugins_in_order order))) config store ing rule path = Ok r"
  shows "route_ok r"
  using middleware_chain [OF ingress_handlers_contract assms [unfolded make_route_def]]
  by (simp add: route_ok_def sets_in_order)

lemma make_routes_ok:
  assumes "make_routes (ingress_handlers (map Some (plugins_in_order order))) config store = Ok routes"
  shows "list_all route_ok routes"
proof -
  have "list_all2 (\<lambda>x r. route_ok r) (ingress_paths (Ingresses store)) routes"
    by (rule list_all2_mono [OF make_routes_collect [OF assms]]) (auto dest: make_route_ok)
  then show ?thesis by (simp add: list_all2_conv_all_nth list_all_length)
qed

lemma make_routes_config:
  "make_routes (ingress_handlers (map Some ps)) config store =
   make_routes (ingress_handlers (map Some ps)) config' store"
  using middleware_chain_config [OF ingress_handlers_contract, of config store _ _ _ ps _ config']
  by (simp add: make_routes_def make_route_def)

section \<open>The order of the routes\<close>

text \<open>The comparison ranks exact paths before prefixes and empty paths last, longer ones first.\<close>

definition path_rank :: "string \<Rightarrow> int \<times> int" where
  "path_rank p =
     (if p = [] then 2 else if HasSuffix p ''*'' then 1 else 0, - int (length p))"

lemma path_less_rank: "path_less p q \<longleftrightarrow> path_rank p < path_rank q"
proof -
  have "\<not> HasSuffix [] ''*''" by (simp add: HasSuffix_iff)
  then show ?thesis
    by (auto simp: path_less_def path_rank_def Let_def less_prod_def)
qed

abbreviation keyed_less :: "string \<times> Route \<Rightarrow> string \<times> Route \<Rightarrow> bool" where
  "keyed_less i j \<equiv> path_less (fst i) (fst j)"

interpretation route_order: strict_weak_order keyed_less
  by (rule strict_weak_order_rank [of _ "\<lambda>i. path_rank (fst i)"]) (rule path_less_rank)

lemma read_paths_Ok:
  "read_paths rs = Ok keyed \<longleftrightarrow> map snd keyed = rs \<and> list_all (\<lambda>(p, r). route_path r = Ok p) keyed"
proof (induction rs arbitrary: keyed)
  case Nil
  then show ?case by auto
next
  case (Cons r rs)
  then show ?case by (cases keyed) auto
qed

lemma getFirstItemFromJSON_Ok:
  "m \<noteq> Some (RawStrings []) \<Longrightarrow> \<exists>p. getFirstItemFromJSON m = Ok p"
  by (cases m rule: getFirstItemFromJSON.cases) auto

lemma route_path_ok: "route_ok r \<Longrightarrow> \<exists>p. route_path r = Ok p"
  by (cases "MatcherSetsRaw r")
    (auto simp: route_ok_def route_path_def matcher_ok_def getFirstItemFromJSON_Ok)

lemma read_paths_ok: "list_all route_ok rs \<Longrightarrow> \<exists>keyed. read_paths rs = Ok keyed"
  by (induction rs) (use route_path_ok in fastforce)+

text \<open>The rank of a route, where its path can be read.\<close>

definition route_rank :: "Route \<Rightarrow> int \<times> int" where
  "route_rank r = (case route_path r of Ok p \<Rightarrow> path_rank p | _ \<Rightarrow> (0, 0))"

lemma route_rank_Ok [simp]: "route_path r = Ok p \<Longrightarrow> route_rank r = path_rank p"
  by (simp add: route_rank_def)

lemma filter_snd:
  "list_all (\<lambda>(p, r). route_path r = Ok p) keyed \<Longrightarrow>
     map snd (filter (\<lambda>(p, r). path_rank p = k) keyed) = filter (\<lambda>r. route_rank r = k) (map snd keyed)"
  by (induction keyed) auto

lemma sorted_by_rank:
  assumes "list_all (\<lambda>(p, r). route_path r = Ok p) keyed"
  shows "sorted (map route_rank (map snd (slice_stable keyed_less keyed)))"
    and "filter (\<lambda>r. route_rank r = k) (map snd (slice_stable keyed_less keyed))
       = filter (\<lambda>r. route_rank r = k) (map snd keyed)"
proof -
  let ?out = "slice_stable keyed_less keyed"
  have all: "list_all (\<lambda>(p, r). route_path r = Ok p) ?out"
    using assms by (simp add: list_all_iff)
  then have "map route_rank (map snd ?out) = map (\<lambda>i. path_rank (fst i)) ?out"
    by (auto simp: list_all_iff)
  moreover have "sorted (map (\<lambda>i. path_rank (fst i)) ?out)"
    using route_order.ranked_slice_stable [of keyed]
    by (simp add: sorted_map path_less_rank not_less)
  ultimately show "sorted (map route_rank (map snd ?out))" by (simp only:)
  show "filter (\<lambda>r. route_rank r = k) (map snd ?out) = filter (\<lambda>r. route_rank r = k) (map snd keyed)"
  proof (cases "\<exists>i \<in> set keyed. path_rank (fst i) = k")
    case True
    then obtain i :: "string \<times> Route" where i: "path_rank (fst i) = k" by blast
    have "filter (\<lambda>(p, r). path_rank p = k) xs = tied keyed_less i xs" for xs
      by (rule filter_cong) (auto simp: path_less_rank i [symmetric] not_less)
    then have "filter (\<lambda>(p, r). path_rank p = k) ?out = filter (\<lambda>(p, r). path_rank p = k) keyed"
      by (simp add: route_order.stable_slice_stable)
    then show ?thesis using filter_snd [OF all] filter_snd [OF assms] by metis
  next
    case False
    then have "filter (\<lambda>(p, r). path_rank p = k) xs = []" if "set xs = set keyed" for xs
      using that by (auto simp: filter_empty_conv)
    then show ?thesis
      using filter_snd [OF all, of k] filter_snd [OF assms, of k] by simp
  qed
qed

lemma sortRoutes_perm: "sortRoutes rs = Ok rs' \<Longrightarrow> mset rs' = mset rs"
  by (auto simp: sortRoutes_def read_paths_Ok split: if_splits)

lemma sortRoutes_ok: "list_all route_ok rs \<Longrightarrow> \<exists>rs'. sortRoutes rs = Ok rs'"
  using read_paths_ok by (fastforce simp: sortRoutes_def)

text \<open>
  C21. On routes whose paths can be read, \<open>sortRoutes\<close> succeeds and its result is the stable sort
  by rank: a permutation of the routes in which exact paths come first, then paths that end in a
  star, then empty ones, the longer path first within each group, and routes of equal rank keep
  the order they had.
\<close>

theorem sortRoutes_spec:
  assumes "list_all route_ok rs"
  shows "\<exists>rs'. sortRoutes rs = Ok rs' \<and> mset rs' = mset rs \<and> sorted (map route_rank rs') \<and>
           (\<forall>k. filter (\<lambda>r. route_rank r = k) rs' = filter (\<lambda>r. route_rank r = k) rs)"
proof (cases "length rs < 2")
  case True
  then have "sorted (map route_rank rs)" by (cases rs) auto
  with True show ?thesis by (auto simp: sortRoutes_def)
next
  case False
  obtain keyed where read: "read_paths rs = Ok keyed" using read_paths_ok [OF assms] by blast
  then have keyed: "map snd keyed = rs" "list_all (\<lambda>(p, r). route_path r = Ok p) keyed"
    by (simp_all add: read_paths_Ok)
  from read False have out: "sortRoutes rs = Ok (map snd (slice_stable keyed_less keyed))"
    by (simp add: sortRoutes_def del: bind_result_eq_Ok)
  with sorted_by_rank [OF keyed(2), unfolded keyed(1)] sortRoutes_perm [OF out] show ?thesis by blast
qed

theorem sortRoutes_spec_witness:
  "\<exists>rs'. sortRoutes [path_route (RawObject []) ''/a/*'', path_route (RawObject []) ''/b''] = Ok rs' \<and>
     sorted (map route_rank rs')"
  using sortRoutes_spec [of "[path_route (RawObject []) ''/a/*'', path_route (RawObject []) ''/b'']"]
  by (auto simp: route_ok_def path_route_def matcher_ok_def)



section \<open>The contract of a global plugin\<close>

text \<open>The configuration between two plugins: well formed, and its routes can be sorted.\<close>

definition config_ok :: "Config \<Rightarrow> bool" where
  "config_ok c \<longleftrightarrow> wf_config c \<and> (\<forall>srv. GetHTTPServer c = Ok (Some srv) \<longrightarrow> list_all route_ok (Routes srv))"

lemma config_ok_wf: "config_ok c \<Longrightarrow> wf_config c"
  by (simp add: config_ok_def)

lemma GetHTTPServer_set_server:
  "wf_config c \<Longrightarrow> GetHTTPServer (set_server name srv c) =
     (if name = HTTPServer then Ok (Some srv) else GetHTTPServer c)"
  by (simp add: GetHTTPServer_def get_server_set_server)

lemma GetMetricsServer_set_server:
  "wf_config c \<Longrightarrow> GetMetricsServer (set_server name srv c) =
     (if name = MetricsServer then Ok (Some srv) else GetMetricsServer c)"
  by (simp add: GetMetricsServer_def get_server_set_server)

lemma server_frames [simp]:
  "GetHTTPServer (set_tls tls c) = GetHTTPServer c"
  "GetHTTPServer (c\<lparr>Logging := l\<rparr>) = GetHTTPServer c"
  "GetHTTPServer (c\<lparr>StorageOf := st\<rparr>) = GetHTTPServer c"
  "GetMetricsServer (set_tls tls c) = GetMetricsServer c"
  "GetMetricsServer (c\<lparr>Logging := l\<rparr>) = GetMetricsServer c"
  "GetMetricsServer (c\<lparr>StorageOf := st\<rparr>) = GetMetricsServer c"
  by (simp_all add: GetHTTPServer_def GetMetricsServer_def)

lemma config_ok_frames [simp]:
  "config_ok (c\<lparr>Logging := l\<rparr>) \<longleftrightarrow> config_ok c"
  "config_ok (c\<lparr>StorageOf := st\<rparr>) \<longleftrightarrow> config_ok c"
  by (simp_all add: config_ok_def)

lemma config_ok_set_tls: "config_ok c \<Longrightarrow> config_ok (set_tls tls c)"
  by (simp add: config_ok_def wf_set_tls)

lemma config_ok_set_server:
  "config_ok c \<Longrightarrow> AutoHTTPS srv \<noteq> None \<Longrightarrow> (name = HTTPServer \<Longrightarrow> list_all route_ok (Routes srv)) \<Longrightarrow>
     config_ok (set_server name srv c)"
  by (auto simp: config_ok_def wf_set_server GetHTTPServer_set_server)

text \<open>Reading the three apps of such a configuration.\<close>

lemma config_ok_read:
  assumes "config_ok c"
  obtains tls hs ms a b where "GetTLSApp c = Ok tls"
    and "GetHTTPServer c = Ok (Some hs)" and "AutoHTTPS hs = Some a" and "list_all route_ok (Routes hs)"
    and "GetMetricsServer c = Ok (Some ms)" and "AutoHTTPS ms = Some b"
  using assms wf_config_GetTLSApp wf_config_GetHTTPServer wf_config_GetMetricsServer
  by (metis config_ok_def)

locale global_middleware =
  fixes handler :: GlobalMiddleware
  assumes keeps_config: "config_ok c \<Longrightarrow> wf_store s \<Longrightarrow> handler c s = Ok c' \<Longrightarrow> config_ok c'"
    and no_panic: "config_ok c \<Longrightarrow> wf_store s \<Longrightarrow> handler c s \<noteq> Panic p"
begin

lemma runs: "config_ok c \<Longrightarrow> wf_store s \<Longrightarrow>
    (\<exists>c'. handler c s = Ok c' \<and> config_ok c') \<or> (\<exists>e. handler c s = Err e)"
  using keeps_config [of c s] no_panic [of c s] by (cases "handler c s") auto

end

text \<open>A handler that always returns a good configuration keeps the contract.\<close>

lemma global_middlewareI:
  assumes "\<And>c s. config_ok c \<Longrightarrow> wf_store s \<Longrightarrow> \<exists>c'. handler c s = Ok c' \<and> config_ok c'"
  shows "global_middleware handler"
  using assms by unfold_locales (metis result.inject(1), metis result.distinct(3))

lemma wf_store_ConfigMap: "wf_store s \<Longrightarrow> \<exists>m. StoreConfigMap s = Some m"
  by (simp add: wf_store_def)

interpretation configmap_gm: global_middleware ConfigMapPlugin_GlobalHandler
proof (rule global_middlewareI)
  fix c s assume ok: "config_ok c" and "wf_store s"
  then obtain m where m: "StoreConfigMap s = Some m" using wf_store_ConfigMap by blast
  from ok show "\<exists>c'. ConfigMapPlugin_GlobalHandler c s = Ok c' \<and> config_ok c'"
    by (rule config_ok_read)
      (use ok m in \<open>auto simp: ConfigMapPlugin_GlobalHandler_def Let_def
        intro!: config_ok_set_server config_ok_set_tls\<close>)
qed

lemma append_metrics_route_ok:
  assumes "config_ok c"
  shows "\<exists>c'. append_metrics_route r c = Ok c' \<and> config_ok c'"
  using assms by (rule config_ok_read)
    (use assms in \<open>auto simp: append_metrics_route_def intro!: config_ok_set_server\<close>)

interpretation healthz_gm: global_middleware HealthzPlugin_GlobalHandler
  by (rule global_middlewareI) (simp add: HealthzPlugin_GlobalHandler_def append_metrics_route_ok)

interpretation metrics_gm: global_middleware MetricsPlugin_GlobalHandler
proof (rule global_middlewareI)
  fix c s assume ok: "config_ok c" and "wf_store s"
  then obtain m where m: "StoreConfigMap s = Some m" using wf_store_ConfigMap by blast
  then show "\<exists>c'. MetricsPlugin_GlobalHandler c s = Ok c' \<and> config_ok c'"
    using ok append_metrics_route_ok [OF ok, of metricsRoute]
    by (cases "Metrics m") (simp_all add: MetricsPlugin_GlobalHandler_def)
qed

interpretation secrets_store_gm: global_middleware SecretsStorePlugin_GlobalHandler
  by (rule global_middlewareI) (simp add: SecretsStorePlugin_GlobalHandler_def)

interpretation tls_gm: global_middleware "TLSPlugin_GlobalHandler certFolder" for certFolder
proof (rule global_middlewareI)
  fix c s assume ok: "config_ok c"
  from ok show "\<exists>c'. TLSPlugin_GlobalHandler certFolder c s = Ok c' \<and> config_ok c'"
    by (rule config_ok_read)
      (use ok in \<open>auto simp: TLSPlugin_GlobalHandler_def Let_def
        intro!: config_ok_set_server config_ok_set_tls\<close>)
qed

interpretation ingress_sort_gm: global_middleware IngressSortPlugin_GlobalHandler
proof (rule global_middlewareI)
  fix c s assume ok: "config_ok c" and "wf_store s"
  then obtain m where m: "StoreConfigMap s = Some m" using wf_store_ConfigMap by blast
  obtain srv a where srv: "GetHTTPServer c = Ok (Some srv)" "AutoHTTPS srv = Some a"
    "list_all route_ok (Routes srv)" using ok by (rule config_ok_read)
  from sortRoutes_ok [OF srv(3)] obtain rs where rs: "sortRoutes (Routes srv) = Ok rs" by blast
  then have "list_all route_ok rs"
    using srv(3) sortRoutes_perm [OF rs] by (metis list_all_iff mset_eq_setD)
  with ok m srv rs show "\<exists>c'. IngressSortPlugin_GlobalHandler c s = Ok c' \<and> config_ok c'"
    by (auto simp: IngressSortPlugin_GlobalHandler_def intro!: config_ok_set_server)
qed

interpretation ingress_gm: global_middleware "IngressPlugin_GlobalHandler (\<lambda>infos. infos) (registry_of registered)"
proof
  fix c s assume ok: "config_ok c" and wf: "wf_store s"
  let ?order = "PluginsOrder (StoreOptions s)"
  let ?hs = "ingress_handlers (Plugins (\<lambda>infos. infos) (registry_of registered) ?order)"
  have hs: "?hs = ingress_handlers (map Some (plugins_in_order ?order))"
    by (simp add: Plugins_registered)
  obtain srv a where srv: "GetHTTPServer c = Ok (Some srv)" "AutoHTTPS srv = Some a"
    using ok by (rule config_ok_read)
  show "config_ok c'" if "IngressPlugin_GlobalHandler (\<lambda>infos. infos) (registry_of registered) c s = Ok c'" for c'
    using that srv ok by (auto simp: IngressPlugin_GlobalHandler_def hs
        intro!: config_ok_set_server make_routes_ok)
  show "IngressPlugin_GlobalHandler (\<lambda>infos. infos) (registry_of registered) c s \<noteq> Panic p" for p
    using srv make_routes_no_panic [OF ingress_handlers_contract wf]
    by (cases "make_routes ?hs c s") (auto simp: IngressPlugin_GlobalHandler_def hs)
qed

end
