(* ===== verification/Caddy_Convert.thy ===== *)
theory Caddy_Convert
  imports Global_Plugins
begin

text \<open>
  \<open>internal/caddy/convert.go\<close>: the conversion of the store into a Caddy configuration, which runs
  the global handlers of the registered plugins in the order of \<open>converter.Plugins\<close>. The parameters
  \<open>iter\<close> and \<open>iter'\<close> are the orders in which the two \<open>range\<close> loops over the registry (in the
  conversion and in \<open>IngressPlugin\<close>) visit it; \<open>visits_all\<close> says that they visit every entry.
\<close>

section \<open>The conversion\<close>

text \<open>The type assertion \<open>p.(converter.GlobalMiddleware)\<close>.\<close>

fun as_GlobalMiddleware ::
  "(plugin PluginInfo list \<Rightarrow> plugin PluginInfo list) \<Rightarrow> plugin registry \<Rightarrow> string \<Rightarrow>
     plugin option \<Rightarrow> GlobalMiddleware option" where
  "as_GlobalMiddleware iter reg certFolder (Some ConfigMapPlugin) = Some ConfigMapPlugin_GlobalHandler"
| "as_GlobalMiddleware iter reg certFolder (Some HealthzPlugin) = Some HealthzPlugin_GlobalHandler"
| "as_GlobalMiddleware iter reg certFolder (Some IngressPlugin) = Some (IngressPlugin_GlobalHandler iter reg)"
| "as_GlobalMiddleware iter reg certFolder (Some IngressSortPlugin) = Some IngressSortPlugin_GlobalHandler"
| "as_GlobalMiddleware iter reg certFolder (Some MetricsPlugin) = Some MetricsPlugin_GlobalHandler"
| "as_GlobalMiddleware iter reg certFolder (Some SecretsStorePlugin) = Some SecretsStorePlugin_GlobalHandler"
| "as_GlobalMiddleware iter reg certFolder (Some TLSPlugin) = Some (TLSPlugin_GlobalHandler certFolder)"
| "as_GlobalMiddleware iter reg certFolder _ = None"

definition run_plugin ::
  "(plugin PluginInfo list \<Rightarrow> plugin PluginInfo list) \<Rightarrow> plugin registry \<Rightarrow> string \<Rightarrow> Store \<Rightarrow>
     plugin option \<Rightarrow> Config \<Rightarrow> Config result" where
  "run_plugin iter reg certFolder store p cfg =
     (case as_GlobalMiddleware iter reg certFolder p of
        None \<Rightarrow> Ok cfg
      | Some m \<Rightarrow> m cfg store)"

text \<open>The registry is what the \<open>init\<close> functions of the plugin packages leave behind.\<close>

definition ConvertToCaddyConfig ::
  "(plugin PluginInfo list \<Rightarrow> plugin PluginInfo list) \<Rightarrow>
   (plugin PluginInfo list \<Rightarrow> plugin PluginInfo list) \<Rightarrow> string \<Rightarrow> Store \<Rightarrow> Config result" where
  "ConvertToCaddyConfig iter iter' certFolder store =
     bind_result init_registry (\<lambda>reg.
       range_loop (run_plugin iter' reg certFolder store)
         (Plugins iter reg (PluginsOrder (StoreOptions store))) NewConfig)"

section \<open>The order of iteration does not matter\<close>

abbreviation run_registered :: "string \<Rightarrow> Store \<Rightarrow> plugin \<Rightarrow> Config \<Rightarrow> Config result" where
  "run_registered certFolder store p \<equiv>
     run_plugin (\<lambda>infos. infos) (registry_of registered) certFolder store (Some p)"

lemma run_plugin_iter:
  assumes "visits_all iter"
  shows "run_plugin iter (registry_of registered) certFolder store p
       = run_plugin (\<lambda>infos. infos) (registry_of registered) certFolder store p"
proof -
  have "Plugins iter (registry_of registered) order
      = Plugins (\<lambda>infos. infos) (registry_of registered) order" for order
    using assms by (simp add: Plugins_registered)
  then have "IngressPlugin_GlobalHandler iter (registry_of registered)
      = IngressPlugin_GlobalHandler (\<lambda>infos. infos) (registry_of registered)"
    by (simp add: fun_eq_iff IngressPlugin_GlobalHandler_def)
  then show ?thesis
    by (cases "(iter, registry_of registered, certFolder, p)" rule: as_GlobalMiddleware.cases)
      (simp_all add: fun_eq_iff run_plugin_def)
qed

lemma range_loop_map: "range_loop f (map g xs) s = range_loop (\<lambda>x. f (g x)) xs s"
  by (induction xs arbitrary: s) (simp_all cong: bind_result_cong)

lemma Convert_registered:
  assumes "visits_all iter" and "visits_all iter'"
  shows "ConvertToCaddyConfig iter iter' certFolder store =
     range_loop (run_registered certFolder store)
       (plugins_in_order (PluginsOrder (StoreOptions store))) NewConfig"
  by (simp add: ConvertToCaddyConfig_def init_registry_Ok Plugins_registered [OF assms(1)]
      run_plugin_iter [OF assms(2)] range_loop_map)

text \<open>
  The conversion is deterministic: in whatever orders Go visits the registry of plugins, the
  conversion of a store has one result, error or configuration.
\<close>

lemma convert_deterministic:
  assumes "visits_all iter" and "visits_all iter'"
  shows "ConvertToCaddyConfig iter iter' certFolder store = ConvertToCaddyConfig id id certFolder store"
  using assms by (simp add: Convert_registered)

section \<open>No panic on what the controller holds\<close>

lemma run_registered_contract:
  "(\<exists>h. run_registered certFolder store p = (\<lambda>c. h c store) \<and> global_middleware h) \<or>
   run_registered certFolder store p = Ok"
  by (cases p)
    (auto simp: run_plugin_def fun_eq_iff intro!: exI
      intro: configmap_gm.global_middleware_axioms healthz_gm.global_middleware_axioms
        metrics_gm.global_middleware_axioms secrets_store_gm.global_middleware_axioms
        tls_gm.global_middleware_axioms ingress_sort_gm.global_middleware_axioms
        ingress_gm.global_middleware_axioms)

lemma run_registered_runs:
  assumes "config_ok c" and "wf_store store"
  shows "(\<exists>c'. run_registered certFolder store p c = Ok c' \<and> config_ok c') \<or>
         (\<exists>e. run_registered certFolder store p c = Err e)"
  using run_registered_contract [of certFolder store p]
proof
  assume "\<exists>h. run_registered certFolder store p = (\<lambda>c. h c store) \<and> global_middleware h"
  then obtain h where "run_registered certFolder store p = (\<lambda>c. h c store)" "global_middleware h"
    by blast
  with global_middleware.runs [OF this(2) assms] show ?thesis by simp
qed (simp add: assms(1))

lemma config_ok_NewConfig: "config_ok NewConfig"
proof -
  have "GetHTTPServer NewConfig = Ok (Some default_http_server)"
    by (simp add: GetHTTPServer_def get_server_def NewConfig_def)
  then show ?thesis
    by (auto simp: config_ok_def wf_NewConfig default_http_server_def)
qed

lemma run_all_runs:
  assumes "config_ok c" and "wf_store store"
  shows "(\<exists>c'. range_loop (run_registered certFolder store) ps c = Ok c' \<and> config_ok c') \<or>
         (\<exists>e. range_loop (run_registered certFolder store) ps c = Err e)"
  using assms(1)
proof (induction ps arbitrary: c)
  case Nil
  then show ?case by simp
next
  case (Cons p ps)
  from run_registered_runs [OF Cons.prems assms(2), of certFolder p] Cons.IH show ?case
    by fastforce
qed

text \<open>
  On a store with a config map and ingresses whose rules have an \<open>http\<close> section and whose paths
  have a type and a service backend, the conversion never panics, whatever plugin order is
  configured: it returns an error, or a configuration with all its parts in place.
\<close>

lemma convert_never_panics:
  assumes "visits_all iter" and "visits_all iter'" and "wf_store store"
  shows "case ConvertToCaddyConfig iter iter' certFolder store of
           Ok cfg \<Rightarrow> wf_config cfg | Err e \<Rightarrow> True | Panic p \<Rightarrow> False"
  using run_all_runs [OF config_ok_NewConfig assms(3), of certFolder
      "plugins_in_order (PluginsOrder (StoreOptions store))"]
  by (auto simp: Convert_registered [OF assms(1,2)] config_ok_wf)

section \<open>The routes of the configuration\<close>

definition http_routes :: "Config \<Rightarrow> Route list" where
  "http_routes c = (case GetHTTPServer c of Ok (Some srv) \<Rightarrow> Routes srv | _ \<Rightarrow> [])"

definition metrics_routes :: "Config \<Rightarrow> Route list" where
  "metrics_routes c = (case GetMetricsServer c of Ok (Some srv) \<Rightarrow> Routes srv | _ \<Rightarrow> [])"

definition smart_sort :: "Store \<Rightarrow> bool" where
  "smart_sort s = (case StoreConfigMap s of Some m \<Rightarrow> ExperimentalSmartSort m | None \<Rightarrow> False)"

lemma http_routes_set_server [simp]:
  "wf_config c \<Longrightarrow>
     http_routes (set_server name srv c) = (if name = HTTPServer then Routes srv else http_routes c)"
  by (simp add: http_routes_def GetHTTPServer_set_server)

lemma http_routes_frames [simp]:
  "http_routes (set_tls tls c) = http_routes c"
  "http_routes (c\<lparr>Logging := l\<rparr>) = http_routes c"
  "http_routes (c\<lparr>StorageOf := st\<rparr>) = http_routes c"
  by (simp_all add: http_routes_def)

lemma http_routes_Some [simp]: "GetHTTPServer c = Ok (Some srv) \<Longrightarrow> http_routes c = Routes srv"
  by (simp add: http_routes_def)

text \<open>Of the plugins only \<open>ingress\<close> and \<open>ingress_sort\<close> touch the routes; the latter permutes them.\<close>

lemma run_other_routes:
  assumes "wf_config c" and "p \<noteq> IngressPlugin" and "run_registered certFolder store p c = Ok c'"
  shows "mset (http_routes c') = mset (http_routes c) \<and>
         (smart_sort store \<or> http_routes c' = http_routes c)"
proof (cases p)
  case ConfigMapPlugin
  with assms show ?thesis
    by (auto simp: run_plugin_def ConfigMapPlugin_GlobalHandler_def Let_def wf_set_tls split: if_splits)
next
  case IngressSortPlugin
  with assms show ?thesis
    by (auto simp: run_plugin_def IngressSortPlugin_GlobalHandler_def smart_sort_def
        split: if_splits dest: sortRoutes_perm)
qed (use assms in \<open>auto simp: run_plugin_def global_handler_defs Let_def wf_set_tls split: if_splits\<close>)

lemma run_ingress_routes:
  assumes "wf_config c" and "run_registered certFolder store IngressPlugin c = Ok c'"
  shows "make_routes (ingress_handlers (map Some (plugins_in_order (PluginsOrder (StoreOptions store)))))
           NewConfig store = Ok (http_routes c')"
  using assms make_routes_config [of _ c store NewConfig]
  by (auto simp: run_plugin_def IngressPlugin_GlobalHandler_def Plugins_registered)

lemma run_all_routes:
  assumes "config_ok c" and "wf_store store"
    and "range_loop (run_registered certFolder store) (before @ IngressPlugin # after) c = Ok c'"
    and "IngressPlugin \<notin> set after"
  shows "\<exists>routes.
      make_routes (ingress_handlers (map Some (plugins_in_order (PluginsOrder (StoreOptions store)))))
        NewConfig store = Ok routes \<and>
      mset (http_routes c') = mset routes \<and> (smart_sort store \<or> http_routes c' = routes)"
proof -
  from assms(3) obtain c1 c2 where
    c1: "range_loop (run_registered certFolder store) before c = Ok c1" and
    c2: "run_registered certFolder store IngressPlugin c1 = Ok c2" and
    rest: "range_loop (run_registered certFolder store) after c2 = Ok c'"
    by (auto simp: range_loop_append)
  have ok1: "config_ok c1"
    using run_all_runs [OF assms(1,2), of certFolder before] c1 by auto
  then have ok2: "config_ok c2"
    using run_registered_runs [OF ok1 assms(2), of certFolder IngressPlugin] c2 by auto
  let ?I = "\<lambda>c. config_ok c \<and> mset (http_routes c) = mset (http_routes c2) \<and>
      (smart_sort store \<or> http_routes c = http_routes c2)"
  have "?I c'"
  proof (rule range_loop_invariant [where P = ?I, OF rest])
    show "?I c2" using ok2 by simp
  next
    fix p d d'
    assume p: "p \<in> set after" and d: "?I d" and step: "run_registered certFolder store p d = Ok d'"
    have "p \<noteq> IngressPlugin" using p assms(4) by blast
    from run_other_routes [OF config_ok_wf this step] d
      run_registered_runs [of d, OF _ assms(2), of certFolder p] step
    show "?I d'" by auto
  qed
  with run_ingress_routes [OF config_ok_wf [OF ok1] c2] show ?thesis by blast
qed

lemma plugins_split:
  obtains before after where "plugins_in_order order = before @ IngressPlugin # after"
    and "IngressPlugin \<notin> set after"
proof -
  have "IngressPlugin \<in># mset (plugins_in_order order)" by (simp add: mset_plugins_in_order)
  then have "IngressPlugin \<in> set (plugins_in_order order)" by simp
  then show ?thesis using that by (metis split_list_last)
qed

text \<open>
  C15. In whatever order the plugins are configured, the HTTP server of the configuration has
  exactly one route for every path of every rule of every ingress in the store, each made by the
  ingress middlewares, with one matcher set. Without smart sort the routes are in the order of the
  ingresses, rules and paths.
\<close>

theorem convert_routes:
  assumes "visits_all iter" and "visits_all iter'" and "wf_store store"
    and "ConvertToCaddyConfig iter iter' certFolder store = Ok cfg"
  shows "\<exists>routes.
     list_all2 (\<lambda>(ing, rule, path) r.
         make_route (ingress_handlers (Plugins iter' (registry_of registered) (PluginsOrder (StoreOptions store))))
           NewConfig store ing rule path = Ok r \<and> length (MatcherSetsRaw r) = 1)
       (ingress_paths (Ingresses store)) routes \<and>
     mset (http_routes cfg) = mset routes \<and>
     (if smart_sort store then True else http_routes cfg = routes)"
proof -
  let ?order = "PluginsOrder (StoreOptions store)"
  let ?hs = "ingress_handlers (map Some (plugins_in_order ?order))"
  obtain before after where ps: "plugins_in_order ?order = before @ IngressPlugin # after"
    and last: "IngressPlugin \<notin> set after" by (rule plugins_split)
  from assms(4) have run: "range_loop (run_registered certFolder store)
      (before @ IngressPlugin # after) NewConfig = Ok cfg"
    by (simp add: Convert_registered [OF assms(1,2)] ps)
  from run_all_routes [OF config_ok_NewConfig assms(3) run last] obtain routes where
    routes: "make_routes ?hs NewConfig store = Ok routes" and
    out: "mset (http_routes cfg) = mset routes" "smart_sort store \<or> http_routes cfg = routes"
    by blast
  have "list_all2 (\<lambda>(ing, rule, path) r. make_route ?hs NewConfig store ing rule path = Ok r \<and>
      length (MatcherSetsRaw r) = 1) (ingress_paths (Ingresses store)) routes"
    by (rule list_all2_mono [OF make_routes_collect [OF routes]])
      (use make_route_ok in \<open>fastforce simp: route_ok_def\<close>)
  with out show ?thesis
    unfolding Plugins_registered [OF assms(2)] by (intro exI [of _ routes]) auto
qed

section \<open>A nil config map\<close>

text \<open>
  After the config map has been deleted (the controller then sets the store's pointer to nil) the
  conversion with the default plugin order dereferences the nil pointer and panics.
\<close>

lemma convert_nil_configmap_panics:
  assumes "visits_all iter" and "visits_all iter'"
    and "StoreConfigMap store = None" and "names_no_plugin (PluginsOrder (StoreOptions store))"
  shows "ConvertToCaddyConfig iter iter' certFolder store = Panic NilDereference"
proof -
  have read: "\<exists>tls srv. GetTLSApp NewConfig = Ok tls \<and> GetHTTPServer NewConfig = Ok srv"
    using config_ok_NewConfig by (rule config_ok_read) blast
  then have "ConfigMapPlugin_GlobalHandler NewConfig store = Panic NilDereference"
    using assms(3) by (auto simp: ConfigMapPlugin_GlobalHandler_def)
  then show ?thesis
    by (simp add: Convert_registered [OF assms(1,2)] plugins_unnamed [OF assms(4)] plugins_default_order
        run_plugin_def)
qed

section \<open>The default plugin order\<close>

lemma default_ingress_handlers:
  "ingress_handlers (map Some (plugins_in_order [])) =
     [RedirectPlugin_IngressHandler, RewritePlugin_IngressHandler, MatcherPlugin_IngressHandler,
      ReverseProxyPlugin_IngressHandler]"
  by (simp add: plugins_default_order ingress_handlers_def List.map_filter_simps)

text \<open>
  With the default plugin order every route ends in the proxy to its backend: the last handler
  of the route of a path is \<open>reverse_proxy\<close> with one upstream, the cluster host name and port of
  the path's service in the namespace of the ingress.
\<close>

lemma default_route_proxies_last:
  assumes "make_route (ingress_handlers (map Some (plugins_in_order []))) config store ing rule path = Ok r"
  shows "\<exists>svc before transport proxies.
     BackendService path = Some svc \<and>
     HandlersRaw r = before @ [RawModule ''handler'' ''reverse_proxy''
       (ReverseProxy transport [ServiceName svc @ ''.'' @ Namespace ing @ ''.svc.cluster.local:'' @
          Itoa (PortNumber svc)] proxies)]"
  using assms
  by (auto simp: make_route_def default_ingress_handlers call_middleware_def
      ReverseProxyPlugin_IngressHandler_def clusterHostName_def Let_def)

definition sample_path :: HTTPIngressPath where
  "sample_path = \<lparr>Path = ''/app'', PathTypeOf = Some PathTypePrefix,
      BackendService = Some \<lparr>ServiceName = ''web'', PortNumber = 80\<rparr>\<rparr>"

lemma default_route_proxies_last_example:
  "\<exists>r before transport proxies.
     make_route (ingress_handlers (map Some (plugins_in_order []))) NewConfig
       (NewStore sample_options [] None) (sample_ingress Map.empty [] []) \<lparr>Host = [], HTTP = None\<rparr>
       sample_path = Ok r \<and>
     HandlersRaw r = before @ [RawModule ''handler'' ''reverse_proxy''
       (ReverseProxy transport [''web'' @ ''.'' @ ''default'' @ ''.svc.cluster.local:'' @ Itoa 80] proxies)]"
proof -
  have none: "getAnnotation (sample_ingress Map.empty [] []) a = []" for a
    by (simp add: getAnnotation_def sample_ingress_def)
  obtain r where r: "make_route (ingress_handlers (map Some (plugins_in_order []))) NewConfig
       (NewStore sample_options [] None) (sample_ingress Map.empty [] []) \<lparr>Host = [], HTTP = None\<rparr>
       sample_path = Ok r"
    by (simp add: make_route_def default_ingress_handlers call_middleware_def ingress_handler_defs
        none Let_def ToLower_def sample_path_def del: bind_result_eq_Ok)
  from default_route_proxies_last [OF r] r show ?thesis
    by (auto simp: sample_path_def sample_ingress_def)
qed

text \<open>
  The configuration as a function of what it depends on: the options of the config map, the
  folder of the certificates, the storage, the hosts with their own certificates, and the routes of
  the two servers. The pipeline of plugins refines it: each handler changes one of the arguments.
\<close>

definition http_server_of :: "ConfigMapOptions \<Rightarrow> string list \<Rightarrow> Route list \<Rightarrow> Server" where
  "http_server_of m hosts routes =
     \<lparr>Listen = ['':80'', '':443''],
      ListenerWrappersRaw =
        (if ProxyProtocol m
         then [RawObject [(''wrapper'', ''proxy_protocol'')], RawObject [(''wrapper'', ''tls'')]] else []),
      Routes = routes, TLSConnPolicies = 1,
      AutoHTTPS = Some \<lparr>Disabled = False, SkipCerts = hosts\<rparr>\<rparr>"

definition metrics_server_of :: "Route list \<Rightarrow> Server" where
  "metrics_server_of routes =
     \<lparr>Listen = ['':9765''], ListenerWrappersRaw = [], Routes = routes, TLSConnPolicies = 0,
      AutoHTTPS = Some \<lparr>Disabled = True, SkipCerts = []\<rparr>\<rparr>"

definition tls_app_of :: "ConfigMapOptions \<Rightarrow> string \<Rightarrow> string list \<Rightarrow> TLSApp" where
  "tls_app_of m certFolder hosts =
     \<lparr>CertificatesRaw = (if hosts = [] then Map.empty else [''load_folders'' \<mapsto> RawStrings [certFolder]]),
      Automation = (if AcmeCA m = [] \<and> Email m = [] then None else Some (automation_of m))\<rparr>"

definition config_of ::
  "ConfigMapOptions \<Rightarrow> string \<Rightarrow> StorageConfig \<Rightarrow> string list \<Rightarrow> Route list \<Rightarrow> Route list \<Rightarrow> Config" where
  "config_of m certFolder storage hosts routes metrics =
     \<lparr>StorageOf = storage,
      Apps = [''tls'' \<mapsto> AppTLS (tls_app_of m certFolder hosts),
              ''http'' \<mapsto> AppHTTP [HTTPServer \<mapsto> http_server_of m hosts routes,
                                 MetricsServer \<mapsto> metrics_server_of metrics]],
      Logging = (if Debug m then [''default'' \<mapsto> ''DEBUG''] else Map.empty)\<rparr>"

lemma config_of_read:
  "GetTLSApp (config_of m f st hosts rs ms) = Ok (tls_app_of m f hosts)"
  "GetHTTPServer (config_of m f st hosts rs ms) = Ok (Some (http_server_of m hosts rs))"
  "GetMetricsServer (config_of m f st hosts rs ms) = Ok (Some (metrics_server_of ms))"
  by (simp_all add: GetTLSApp_def GetHTTPServer_def GetMetricsServer_def get_server_def config_of_def)

lemma config_of_write:
  "set_server HTTPServer (http_server_of m hosts rs') (config_of m f st hosts rs ms)
     = config_of m f st hosts rs' ms"
  "set_server MetricsServer (metrics_server_of ms') (config_of m f st hosts rs ms)
     = config_of m f st hosts rs ms'"
  "hosts' \<noteq> [] \<Longrightarrow> set_server HTTPServer (http_server_of m hosts' rs)
      (set_tls (tls_app_of m f hosts') (config_of m f st hosts rs ms)) = config_of m f st hosts' rs ms"
  "config_of m f st hosts rs ms\<lparr>StorageOf := st'\<rparr> = config_of m f st' hosts rs ms"
  by (simp_all add: set_server_def set_tls_def config_of_def fun_upd_twist)

lemma server_of_fields:
  "Routes (http_server_of m hosts rs) = rs" "Routes (metrics_server_of ms) = ms"
  "http_server_of m hosts rs\<lparr>Routes := rs'\<rparr> = http_server_of m hosts rs'"
  "metrics_server_of ms\<lparr>Routes := ms'\<rparr> = metrics_server_of ms'"
  by (simp_all add: http_server_of_def metrics_server_of_def)

lemmas config_of_simps = config_of_read config_of_write server_of_fields

lemma configmap_stage:
  "StoreConfigMap store = Some m \<Longrightarrow>
     ConfigMapPlugin_GlobalHandler NewConfig store = Ok (config_of m f (StorageOf NewConfig) [] [] [])"
  by (auto simp: ConfigMapPlugin_GlobalHandler_def NewConfig_def GetTLSApp_def GetHTTPServer_def
      get_server_def set_tls_def set_server_def config_of_def tls_app_of_def http_server_of_def
      metrics_server_of_def Let_def default_http_server_def default_metrics_server_def fun_eq_iff)

lemma metrics_stage:
  "append_metrics_route r (config_of m f st hosts rs ms) = Ok (config_of m f st hosts rs (ms @ [r]))"
  by (simp add: append_metrics_route_def config_of_simps del: bind_result_eq_Ok)

lemma tls_stage:
  "TLSPlugin_GlobalHandler f (config_of m f st [] rs ms) store
     = Ok (config_of m f st (tls_hosts (Ingresses store)) rs ms)"
proof -
  let ?hosts = "tls_hosts (Ingresses store)"
  show ?thesis
  proof (cases "?hosts = []")
    case True
    then show ?thesis by (simp add: TLSPlugin_GlobalHandler_def config_of_read del: bind_result_eq_Ok)
  next
    case False
    then have "tls_app_of m f []\<lparr>CertificatesRaw :=
        (CertificatesRaw (tls_app_of m f []))(''load_folders'' \<mapsto> RawStrings [f])\<rparr> = tls_app_of m f ?hosts"
      by (simp add: tls_app_of_def)
    moreover have "http_server_of m [] rs\<lparr>AutoHTTPS := Some \<lparr>Disabled = False, SkipCerts = ?hosts\<rparr>\<rparr>
        = http_server_of m ?hosts rs" and "AutoHTTPS (http_server_of m [] rs) = Some \<lparr>Disabled = False, SkipCerts = []\<rparr>"
      by (simp_all add: http_server_of_def)
    ultimately show ?thesis
      using False by (simp add: TLSPlugin_GlobalHandler_def config_of_simps del: bind_result_eq_Ok)
  qed
qed

lemma ingress_stage:
  "IngressPlugin_GlobalHandler (\<lambda>infos. infos) (registry_of registered) (config_of m f st hosts rs ms) store
     = bind_result (make_routes (ingress_handlers (map Some (plugins_in_order (PluginsOrder (StoreOptions store)))))
         NewConfig store) (\<lambda>routes. Ok (config_of m f st hosts routes ms))"
  by (simp add: IngressPlugin_GlobalHandler_def Plugins_registered config_of_simps
      make_routes_config [of _ "config_of m f st hosts rs ms" store NewConfig] del: bind_result_eq_Ok)

lemma sort_stage:
  "StoreConfigMap store = Some m \<Longrightarrow>
     IngressSortPlugin_GlobalHandler (config_of m f st hosts rs ms) store
       = bind_result (if ExperimentalSmartSort m then sortRoutes rs else Ok rs)
           (\<lambda>rs'. Ok (config_of m f st hosts rs' ms))"
  by (simp add: IngressSortPlugin_GlobalHandler_def config_of_simps del: bind_result_eq_Ok)

definition secret_storage :: "Store \<Rightarrow> StorageConfig" where
  "secret_storage store =
     \<lparr>System = ''secret_store'', StorageNamespace = ConfigNamespace store,
      StorageLeaseID = OptionsLeaseID (StoreOptions store)\<rparr>"

lemma default_pipeline:
  assumes "visits_all iter" and "visits_all iter'"
    and "StoreConfigMap store = Some m" and "names_no_plugin (PluginsOrder (StoreOptions store))"
  shows "ConvertToCaddyConfig iter iter' certFolder store =
     bind_result (make_routes (ingress_handlers (map Some (plugins_in_order []))) NewConfig store) (\<lambda>routes.
     bind_result (if ExperimentalSmartSort m then sortRoutes routes else Ok routes) (\<lambda>routes.
       Ok (config_of m certFolder (secret_storage store) (tls_hosts (Ingresses store)) routes
             (if Metrics m then [metricsRoute, healthzRoute] else [healthzRoute]))))"
proof -
  define hs where "hs = ingress_handlers (map Some (plugins_in_order []))"
  have ingress: "IngressPlugin_GlobalHandler (\<lambda>infos. infos) (registry_of registered)
      (config_of m certFolder st hosts rs ms) store
      = bind_result (make_routes hs NewConfig store) (\<lambda>routes. Ok (config_of m certFolder st hosts routes ms))"
    for st hosts rs ms
    by (simp only: ingress_stage plugins_unnamed [OF assms(4)] hs_def)
  have conv: "ConvertToCaddyConfig iter iter' certFolder store =
      range_loop (run_registered certFolder store) (plugins_in_order []) NewConfig"
    by (simp add: Convert_registered [OF assms(1,2)] plugins_unnamed [OF assms(4)])
  note stages = run_plugin_def configmap_stage [OF assms(3), of certFolder] ingress
    MetricsPlugin_GlobalHandler_def assms(3) metrics_stage SecretsStorePlugin_GlobalHandler_def
    config_of_write secret_storage_def [symmetric] tls_stage sort_stage [OF assms(3)]
    HealthzPlugin_GlobalHandler_def
  show ?thesis
    unfolding conv hs_def [symmetric] unfolding plugins_default_order
  proof (cases "make_routes hs NewConfig store")
    case (Ok routes)
    then show "range_loop (run_registered certFolder store) [RedirectPlugin, RewritePlugin,
        ConfigMapPlugin, IngressPlugin, MatcherPlugin, MetricsPlugin, SecretsStorePlugin, TLSPlugin,
        IngressSortPlugin, ReverseProxyPlugin, HealthzPlugin] NewConfig =
      bind_result (make_routes hs NewConfig store) (\<lambda>routes.
      bind_result (if ExperimentalSmartSort m then sortRoutes routes else Ok routes) (\<lambda>routes.
       Ok (config_of m certFolder (secret_storage store) (tls_hosts (Ingresses store)) routes
             (if Metrics m then [metricsRoute, healthzRoute] else [healthzRoute]))))"
      by (cases "ExperimentalSmartSort m"; cases "sortRoutes routes")
        (simp_all add: stages del: bind_result_eq_Ok)
  qed (simp_all add: stages)
qed

text \<open>
  C4. With the default plugin order the pipeline of the seven global plugins computes the
  configuration described above: the routes of the ingresses, sorted when the config map asks for
  it, with the other parts determined by the options. It fails exactly when making or sorting the
  routes fails.
\<close>

theorem convert_default_refines:
  assumes "visits_all iter" and "visits_all iter'"
    and "StoreConfigMap store = Some m" and "names_no_plugin (PluginsOrder (StoreOptions store))"
  shows "ConvertToCaddyConfig iter iter' certFolder store =
     bind_result (make_routes (ingress_handlers (map Some (plugins_in_order []))) NewConfig store) (\<lambda>routes.
     bind_result (if ExperimentalSmartSort m then sortRoutes routes else Ok routes) (\<lambda>routes.
       Ok (config_of m certFolder (secret_storage store) (tls_hosts (Ingresses store)) routes
             (if Metrics m then [metricsRoute, healthzRoute] else [healthzRoute]))))"
  using assms by (rule default_pipeline)

definition sample_store :: Store where
  "sample_store = (NewStore sample_options [] None)\<lparr>Ingresses :=
     [sample_ingress Map.empty [] [\<lparr>Host = ''example.com'', HTTP = Some [sample_path]\<rparr>]]\<rparr>"

lemma sample_store_fields:
  "StoreConfigMap sample_store = Some zeroConfigMapOptions"
  "names_no_plugin (PluginsOrder (StoreOptions sample_store))"
  "wf_store sample_store"
  by (simp_all add: sample_store_def NewStore_def sample_options_def wf_store_def wf_ingress_def
      sample_ingress_def sample_path_def wf_path_def names_no_plugin_flags)

lemma sample_store_routes:
  "\<exists>r. make_routes (ingress_handlers (map Some (plugins_in_order []))) NewConfig sample_store = Ok [r]"
proof -
  have none: "getAnnotation (sample_ingress Map.empty [] rules) a = []" for rules a
    by (simp add: getAnnotation_def sample_ingress_def)
  have rules: "Rules (sample_ingress a t rules) = rules" for a t rules
    by (simp add: sample_ingress_def)
  have ings: "Ingresses sample_store =
      [sample_ingress Map.empty [] [\<lparr>Host = ''example.com'', HTTP = Some [sample_path]\<rparr>]]"
    by (simp add: sample_store_def)
  show ?thesis
    by (simp add: make_routes_def make_route_def default_ingress_handlers call_middleware_def
        ingress_handler_defs none ings rules Let_def ToLower_def sample_path_def del: bind_result_eq_Ok)
qed

lemma sample_store_converts:
  "\<exists>cfg. ConvertToCaddyConfig rev id certFolder sample_store = Ok cfg"
  using sample_store_routes default_pipeline [of rev id sample_store zeroConfigMapOptions certFolder]
    sample_store_fields(1,2)
  by (auto simp: zeroConfigMapOptions_def simp del: bind_result_eq_Ok)

theorem convert_default_refines_witness:
  "\<exists>r. ConvertToCaddyConfig rev id ''/certs'' sample_store =
     Ok (config_of zeroConfigMapOptions ''/certs'' (secret_storage sample_store)
           (tls_hosts (Ingresses sample_store)) [r] [healthzRoute])"
  using sample_store_routes convert_default_refines [of rev id sample_store zeroConfigMapOptions "''/certs''"]
    sample_store_fields(1,2)
  by (auto simp: zeroConfigMapOptions_def simp del: bind_result_eq_Ok)

theorem convert_routes_witness:
  "\<exists>cfg. ConvertToCaddyConfig rev id ''/certs'' sample_store = Ok cfg \<and> length (http_routes cfg) = 1"
proof -
  obtain cfg where cfg: "ConvertToCaddyConfig rev id ''/certs'' sample_store = Ok cfg"
    using sample_store_converts by blast
  have "visits_all (rev :: 'a list \<Rightarrow> 'a list)" "visits_all (id :: 'a list \<Rightarrow> 'a list)" by simp_all
  from convert_routes [OF _ _ sample_store_fields(3) cfg] obtain routes where
    "length (ingress_paths (Ingresses sample_store)) = length routes"
    and "mset (http_routes cfg) = mset routes"
    by (auto dest: list_all2_lengthD)
  then have "length (http_routes cfg) = length (ingress_paths (Ingresses sample_store))"
    by (metis size_mset)
  also have "\<dots> = 1"
    by (simp add: ingress_paths_def sample_store_def sample_ingress_def rule_paths_def)
  finally show ?thesis using cfg by blast
qed

section \<open>Hosts with their own certificates\<close>

lemma fold_add_host: "set (fold add_host hs acc) = set hs \<union> set acc \<and> (distinct acc \<longrightarrow> distinct (fold add_host hs acc))"
  by (induction hs arbitrary: acc) (auto simp: add_host_def)

lemma fold_tls_rules:
  "set (fold (\<lambda>rule. fold add_host (Hosts rule)) rules acc) = (\<Union>rule \<in> set rules. set (Hosts rule)) \<union> set acc \<and>
   (distinct acc \<longrightarrow> distinct (fold (\<lambda>rule. fold add_host (Hosts rule)) rules acc))"
  by (induction rules arbitrary: acc) (auto simp: fold_add_host)

lemma fold_tls_ingresses:
  "set (fold (\<lambda>ing. fold (\<lambda>rule. fold add_host (Hosts rule)) (TLS ing)) ings acc) =
     (\<Union>ing \<in> set ings. \<Union>rule \<in> set (TLS ing). set (Hosts rule)) \<union> set acc \<and>
   (distinct acc \<longrightarrow> distinct (fold (\<lambda>ing. fold (\<lambda>rule. fold add_host (Hosts rule)) (TLS ing)) ings acc))"
  by (induction ings arbitrary: acc) (auto simp: fold_tls_rules)

text \<open>
  The hosts for which Caddy is told not to manage certificates are exactly the hosts listed in
  the TLS sections of the ingresses, each once.
\<close>

lemma tls_hosts_exact:
  "set (tls_hosts ings) = (\<Union>ing \<in> set ings. \<Union>rule \<in> set (TLS ing). set (Hosts rule)) \<and>
   distinct (tls_hosts ings)"
  using fold_tls_ingresses [of ings "[]"] by (simp add: tls_hosts_def)

section \<open>Rules the conversion cannot take\<close>

lemma make_routes_backends:
  assumes "make_routes (ingress_handlers (map Some (plugins_in_order []))) config store = Ok routes"
    and "ing \<in> set (Ingresses store)" and "rule \<in> set (Rules ing)"
  shows "\<exists>paths. HTTP rule = Some paths \<and> (\<forall>path \<in> set paths. BackendService path \<noteq> None)"
proof -
  let ?hs = "ingress_handlers (map Some (plugins_in_order []))"
  from range_loop_each [OF assms(1) [unfolded make_routes_def] assms(2)] obtain rs rs' where
    "range_loop (\<lambda>rule routes. bind_result (deref (HTTP rule)) (\<lambda>paths.
       range_loop (\<lambda>path routes. bind_result (make_route ?hs config store ing rule path)
         (\<lambda>r. Ok (routes @ [r]))) paths routes)) (Rules ing) rs = Ok rs'" by blast
  from range_loop_each [OF this assms(3)] obtain paths ps ps' where
    paths: "HTTP rule = Some paths" and loop: "range_loop (\<lambda>path routes.
      bind_result (make_route ?hs config store ing rule path) (\<lambda>r. Ok (routes @ [r]))) paths ps = Ok ps'"
    by auto
  have "BackendService path \<noteq> None" if "path \<in> set paths" for path
  proof -
    from range_loop_each [OF loop that] obtain r where "make_route ?hs config store ing rule path = Ok r"
      by auto
    moreover have "ReverseProxyPlugin_IngressHandler \<in> set ?hs" by (simp add: default_ingress_handlers)
    ultimately obtain r1 r2 where
      "call_middleware config store ing rule path ReverseProxyPlugin_IngressHandler r1 = Ok r2"
      unfolding make_route_def by (blast dest: range_loop_each)
    then show ?thesis
      by (auto simp: call_middleware_def ReverseProxyPlugin_IngressHandler_def Let_def)
  qed
  with paths show ?thesis by blast
qed

text \<open>
  C35. With the default plugin order one rule without an \<open>http\<close> section, or one path whose backend is
  not a service, keeps the whole store from being converted: there is no configuration for any of
  the ingresses, although the API server admits such rules.
\<close>

theorem one_rule_blocks_all:
  assumes "visits_all iter" and "visits_all iter'"
    and "StoreConfigMap store = Some m" and "names_no_plugin (PluginsOrder (StoreOptions store))"
    and "ing \<in> set (Ingresses store)" and "rule \<in> set (Rules ing)"
    and "case HTTP rule of None \<Rightarrow> True | Some paths \<Rightarrow> list_ex (\<lambda>path. BackendService path = None) paths"
  shows "\<not> is_Ok (ConvertToCaddyConfig iter iter' certFolder store)"
proof
  assume "is_Ok (ConvertToCaddyConfig iter iter' certFolder store)"
  then obtain routes where
    "make_routes (ingress_handlers (map Some (plugins_in_order []))) NewConfig store = Ok routes"
    by (auto simp: default_pipeline [OF assms(1-4)] is_Ok_iff)
  from make_routes_backends [OF this assms(5,6)] assms(7) show False by (fastforce simp: list_ex_iff)
qed

theorem one_rule_blocks_all_witness:
  "\<not> is_Ok (ConvertToCaddyConfig rev id ''/certs'' (sample_store\<lparr>Ingresses := Ingresses sample_store @
      [sample_ingress Map.empty [] [\<lparr>Host = ''b.example.com'', HTTP = None\<rparr>]]\<rparr>))"
  by (rule one_rule_blocks_all [where rule = "\<lparr>Host = ''b.example.com'', HTTP = None\<rparr>"
        and ing = "sample_ingress Map.empty [] [\<lparr>Host = ''b.example.com'', HTTP = None\<rparr>]"])
    (use sample_store_fields in \<open>simp_all add: sample_ingress_def\<close>)

end
