(* ===== verification/Kube_Watch.thy ===== *)
theory Kube_Watch
  imports Resource_Store Go_Strings
begin

text \<open>
  The package \<open>internal/k8s\<close>: the filters between the informers' events and the controller's
  handlers, the addresses of the services in front of the pod, and the pod the controller runs in.
  The informers, listers and clients of client-go are parameters. A handler is a function on the
  state \<open>'c\<close> of its receiver. An object an informer delivers may be of another type than the
  handler expects, in particular the tombstone client-go delivers for a deletion it has missed.
\<close>

section \<open>Events\<close>

datatype watched =
    IngressObject Ingress
  | ConfigMapObject ConfigMap
  | SecretObject Secret
  | DeletedFinalStateUnknown string
  | OtherObject

datatype event = AddEvent watched | UpdateEvent watched watched | DeleteEvent watched

record ('o, 'c) handlers =
  AddFunc :: "'o \<Rightarrow> 'c \<Rightarrow> 'c"
  UpdateFunc :: "'o \<Rightarrow> 'o \<Rightarrow> 'c \<Rightarrow> 'c"
  DeleteFunc :: "'o \<Rightarrow> 'c \<Rightarrow> 'c"

type_synonym 'c ConfigMapHandlers = "(ConfigMap, 'c) handlers"
type_synonym 'c IngressHandlers = "(Ingress, 'c) handlers"
type_synonym 'c TLSSecretHandlers = "(Secret, 'c) handlers"

text \<open>The type assertions \<open>obj.(*T)\<close>.\<close>

fun as_ingress :: "watched \<Rightarrow> Ingress option" where
  "as_ingress (IngressObject i) = Some i"
| "as_ingress _ = None"

fun as_configmap :: "watched \<Rightarrow> ConfigMap option" where
  "as_configmap (ConfigMapObject cm) = Some cm"
| "as_configmap _ = None"

fun as_secret :: "watched \<Rightarrow> Secret option" where
  "as_secret (SecretObject s) = Some s"
| "as_secret _ = None"

text \<open>
  The three event handlers all the watchers register: the object must have the type, and the new
  object must pass the filter.
\<close>

fun filtered :: "(watched \<Rightarrow> 'o option) \<Rightarrow> ('o \<Rightarrow> bool) \<Rightarrow> ('o, 'c) handlers \<Rightarrow> event \<Rightarrow> 'c \<Rightarrow> 'c" where
  "filtered as keep funcs (AddEvent obj) c =
     (case as obj of Some o' \<Rightarrow> if keep o' then AddFunc funcs o' c else c | None \<Rightarrow> c)"
| "filtered as keep funcs (UpdateEvent oldObj newObj) c =
     (case (as oldObj, as newObj) of
        (Some old, Some new) \<Rightarrow> if keep new then UpdateFunc funcs old new c else c
      | _ \<Rightarrow> c)"
| "filtered as keep funcs (DeleteEvent obj) c =
     (case as obj of Some o' \<Rightarrow> if keep o' then DeleteFunc funcs o' c else c | None \<Rightarrow> c)"

section \<open>Config maps\<close>

record ConfigMapParams =
  ParamsNamespace :: string
  ParamsConfigMapName :: string

definition isControllerConfigMap :: "ConfigMap \<Rightarrow> string \<Rightarrow> bool" where
  "isControllerConfigMap cm name \<longleftrightarrow> Name cm = name"

definition WatchConfigMaps :: "ConfigMapParams \<Rightarrow> 'c ConfigMapHandlers \<Rightarrow> event \<Rightarrow> 'c \<Rightarrow> 'c" where
  "WatchConfigMaps options funcs =
     filtered as_configmap (\<lambda>cm. isControllerConfigMap cm (ParamsConfigMapName options)) funcs"

section \<open>Ingresses\<close>

record IngressParams =
  ParamsClassName :: string
  ParamsClassNameRequired :: bool

definition isControllerIngress :: "IngressParams \<Rightarrow> Ingress \<Rightarrow> bool" where
  "isControllerIngress options ingress =
     (let annotated = (case Annotations ingress ''kubernetes.io/ingress.class'' of None \<Rightarrow> [] | Some v \<Rightarrow> v);
          ingressClass = (if annotated = [] \<and> IngressClassName ingress \<noteq> None
                          then the (IngressClassName ingress) else annotated)
      in if \<not> ParamsClassNameRequired options \<and> ingressClass = [] then True
         else ingressClass = ParamsClassName options)"

definition WatchIngresses :: "IngressParams \<Rightarrow> 'c IngressHandlers \<Rightarrow> event \<Rightarrow> 'c \<Rightarrow> 'c" where
  "WatchIngresses options funcs = filtered as_ingress (isControllerIngress options) funcs"

text \<open>\<open>UpdateIngressStatus\<close>, over the ingress client: \<open>Get\<close> and \<open>UpdateStatus\<close> in a namespace.\<close>

record 'w IngressClient =
  IngressGet :: "string \<Rightarrow> string \<Rightarrow> 'w \<Rightarrow> Ingress result \<times> 'w"
  IngressUpdateStatus :: "string \<Rightarrow> Ingress \<Rightarrow> 'w \<Rightarrow> Ingress result \<times> 'w"

definition UpdateIngressStatus ::
  "'w IngressClient \<Rightarrow> Ingress \<Rightarrow> IngressLoadBalancerIngress list \<Rightarrow> 'w \<Rightarrow> Ingress result \<times> 'w" where
  "UpdateIngressStatus client ing status w =
     (case IngressGet client (Namespace ing) (Name ing) w of
        (Err e, w1) \<Rightarrow>
          (Err (Wrap (''unexpected error searching Ingress '' @ Namespace ing @ ''/'' @ Name ing) e), w1)
      | (Panic p, w1) \<Rightarrow> (Panic p, w1)
      | (Ok currIng, w1) \<Rightarrow>
          IngressUpdateStatus client (Namespace ing) (currIng\<lparr>LoadBalancerIngress := status\<rparr>) w1)"

section \<open>TLS secrets\<close>

definition WatchTLSSecrets :: "'c TLSSecretHandlers \<Rightarrow> event \<Rightarrow> 'c \<Rightarrow> 'c" where
  "WatchTLSSecrets funcs = filtered as_secret (\<lambda>s. SecretTypeOf s = SecretTypeTLS) funcs"

text \<open>\<open>lister\<close> is \<open>lister.Secrets(namespace).Get(name)\<close>; the error of a failed lookup is dropped.\<close>

definition ListTLSSecrets :: "(string \<Rightarrow> string \<Rightarrow> Secret option) \<Rightarrow> Ingress list \<Rightarrow> Secret list" where
  "ListTLSSecrets lister ings =
     concat (map (\<lambda>ing. List.map_filter (\<lambda>tlsRule. lister (Namespace ing) (SecretName tlsRule)) (TLS ing)) ings)"

definition IsManagedTLSSecret :: "Secret \<Rightarrow> Ingress list \<Rightarrow> bool" where
  "IsManagedTLSSecret secret ings \<longleftrightarrow>
     list_ex (\<lambda>ing. list_ex (\<lambda>tlsRule. SecretName tlsRule = Name secret \<and> Namespace ing = Namespace secret) (TLS ing)) ings"

section \<open>The pod and its addresses\<close>

definition isSubset :: "labels \<Rightarrow> labels \<Rightarrow> bool" where
  "isSubset subSet superSet \<longleftrightarrow>
     length superSet = 0 \<or> list_all (\<lambda>(k, v). map_of superSet k = Some v) subSet"

definition ClusterIPNone :: string where
  "ClusterIPNone = ''None''"

definition GetAddressFromService :: "Service \<Rightarrow> string" where
  "GetAddressFromService service =
     (case ServiceTypeOf service of
        ServiceTypeNodePort \<Rightarrow> []
      | ServiceTypeClusterIP \<Rightarrow> if ClusterIP service \<noteq> ClusterIPNone then ClusterIP service else []
      | ServiceTypeExternalName \<Rightarrow> ExternalName service
      | ServiceTypeLoadBalancer \<Rightarrow>
          (case ServiceLoadBalancer service of
             [] \<Rightarrow> []
           | ingress # _ \<Rightarrow> if Hostname ingress \<noteq> [] then Hostname ingress else IP ingress)
      | ServiceTypeOther t \<Rightarrow> [])"

text \<open>\<open>services\<close> is the list of the services of a namespace, or the error of the request.\<close>

definition GetAddresses :: "(string \<Rightarrow> Service list result) \<Rightarrow> PodInfo option \<Rightarrow> string list result" where
  "GetAddresses services p =
     (case p of
        None \<Rightarrow> Ok []
      | Some pod \<Rightarrow>
          bind_result (services (PodNamespace pod)) (\<lambda>svcs.
            Ok (filter (\<lambda>addr. addr \<noteq> [])
                  (map GetAddressFromService
                     (filter (\<lambda>svc. isSubset (Selector svc) (PodInfoLabels pod)) svcs)))))"

text \<open>
  \<open>GetPodDetails\<close>: the client returns a pod and an error, which is dropped; \<open>get\<close> gives the pod the
  request returned, \<open>None\<close> for nil.
\<close>

definition GetPodDetails ::
  "(string \<Rightarrow> string \<Rightarrow> Pod option) \<Rightarrow> string \<Rightarrow> string \<Rightarrow> PodInfo option result" where
  "GetPodDetails get podName podNs =
     (if podName = [] \<and> podNs = [] then Ok None
      else if podName = [] \<or> podNs = []
      then Err (ErrorString ''unable to get POD information (missing POD_NAME or POD_NAMESPACE environment variable'')
      else case get podNs podName of
        None \<Rightarrow> Err (ErrorString ''unable to get POD information'')
      | Some pod \<Rightarrow> Ok (Some \<lparr>PodName = podName, PodNamespace = podNs, PodInfoLabels = PodLabels pod\<rparr>))"

section \<open>Properties\<close>

text \<open>
  The class of an ingress is its annotation, or else its \<open>spec.ingressClassName\<close>; the controller
  takes an ingress exactly when that class is its own, or is empty and no class is required.
\<close>

lemma isControllerIngress_class:
  "isControllerIngress options ing \<longleftrightarrow>
     (let cls = (case (Annotations ing ''kubernetes.io/ingress.class'', IngressClassName ing) of
                   (Some (c # cs), _) \<Rightarrow> c # cs | (_, Some name) \<Rightarrow> name | _ \<Rightarrow> [])
      in cls = ParamsClassName options \<or> cls = [] \<and> ParamsClassNameRequired options = False)"
  by (auto simp: isControllerIngress_def Let_def split: option.split list.split)

text \<open>
  C38. An update that takes an ingress out of the controller's class reaches no handler: the event
  is dropped, and the receiver's state, with the ingress in its old form, stays as it is. So does
  the deletion of an ingress that is reported by a tombstone.
\<close>

theorem WatchIngresses_drops:
  assumes "\<not> isControllerIngress options new"
  shows "WatchIngresses options funcs (UpdateEvent (IngressObject old) (IngressObject new)) c = c \<and>
         WatchIngresses options funcs (DeleteEvent (DeletedFinalStateUnknown key)) c = c"
  using assms by (simp add: WatchIngresses_def)

theorem WatchIngresses_drops_witness:
  "WatchIngresses \<lparr>ParamsClassName = ''caddy'', ParamsClassNameRequired = True\<rparr>
     \<lparr>AddFunc = \<lambda>o' n. n + 1, UpdateFunc = \<lambda>o1 o2 n. n + 1, DeleteFunc = \<lambda>o' n. n + 1\<rparr>
     (UpdateEvent (IngressObject ((sample_ingress Map.empty [] [])\<lparr>IngressClassName := Some ''caddy''\<rparr>))
        (IngressObject (sample_ingress Map.empty [] []))) (0::nat) = 0"
proof -
  let ?opts = "\<lparr>ParamsClassName = ''caddy'', ParamsClassNameRequired = True\<rparr>"
  have "\<not> isControllerIngress ?opts (sample_ingress Map.empty [] [])"
    by (simp add: isControllerIngress_def sample_ingress_def)
  then show ?thesis by (rule WatchIngresses_drops [THEN conjunct1])
qed

lemma map_filter_set: "set (List.map_filter f xs) = {y. \<exists>x \<in> set xs. f x = Some y}"
  by (force simp: List.map_filter_def)

text \<open>
  The secrets written at the start and the secrets whose changes are followed agree: a secret
  listed for the ingresses, from a lister that returns secrets by their names, is one the filter of
  the secret events accepts, and every accepted secret the lister knows is listed.
\<close>

lemma ListTLSSecrets_managed:
  assumes "\<And>ns n s. lister ns n = Some s \<Longrightarrow> Namespace s = ns \<and> Name s = n"
  shows "s \<in> set (ListTLSSecrets lister ings) \<longleftrightarrow>
           IsManagedTLSSecret s ings \<and> lister (Namespace s) (Name s) = Some s"
proof -
  have "s \<in> set (ListTLSSecrets lister ings) \<longleftrightarrow>
      (\<exists>ing \<in> set ings. \<exists>t \<in> set (TLS ing). lister (Namespace ing) (SecretName t) = Some s)"
    by (auto simp: ListTLSSecrets_def map_filter_set)
  moreover have "lister (Namespace ing) (SecretName t) = Some s \<longleftrightarrow>
      SecretName t = Name s \<and> Namespace ing = Namespace s \<and> lister (Namespace s) (Name s) = Some s"
    for ing :: Ingress and t
    using assms [of "Namespace ing" "SecretName t" s] by auto
  ultimately have "s \<in> set (ListTLSSecrets lister ings) \<longleftrightarrow>
      (\<exists>ing \<in> set ings. \<exists>t \<in> set (TLS ing). SecretName t = Name s \<and> Namespace ing = Namespace s \<and>
         lister (Namespace s) (Name s) = Some s)" by blast
  then show ?thesis unfolding IsManagedTLSSecret_def list_ex_iff by blast
qed

definition sample_secret :: "string \<Rightarrow> string \<Rightarrow> bytes \<Rightarrow> Secret" where
  "sample_secret ns name crt =
     \<lparr>Name = name, Namespace = ns, UID = [], Annotations = Map.empty, SecretTypeOf = SecretTypeTLS,
      SecretData = [(''tls.crt'', crt)]\<rparr>"

lemma ListTLSSecrets_managed_example:
  "let lister = (\<lambda>ns n. if (ns, n) = (''default'', ''cert'') then Some (sample_secret ns n ''x'') else None);
       ing = sample_ingress Map.empty [\<lparr>Hosts = [''h''], SecretName = ''cert''\<rparr>] []
   in sample_secret ''default'' ''cert'' ''x'' \<in> set (ListTLSSecrets lister [ing])"
proof -
  let ?lister = "\<lambda>ns n. if (ns, n) = (''default'', ''cert'') then Some (sample_secret ns n ''x'') else None"
  have law: "\<And>ns n s. ?lister ns n = Some s \<Longrightarrow> Namespace s = ns \<and> Name s = n"
    by (auto simp: sample_secret_def split: if_splits)
  show ?thesis
    unfolding Let_def
    by (rule iffD2 [OF ListTLSSecrets_managed [of ?lister, OF law]])
      (simp_all add: IsManagedTLSSecret_def sample_ingress_def sample_secret_def)
qed

end
