(* ===== verification/Ingress_Status.thy ===== *)
theory Ingress_Status
  imports Kube_Watch Stable_Sort Netip "HOL-Library.Product_Lexorder"
begin

text \<open>
  \<open>internal/controller/action_status.go\<close>: the status of the ingresses is kept at the addresses of
  the services in front of the controller. \<open>updateIngStatuses\<close> sorts the statuses it compares in
  place, in the stored ingresses too, and queues one update per ingress whose status differs on a
  worker pool. The pool is third-party code: \<open>schedule\<close> is the order in which it runs the queued
  updates; every one runs once.
\<close>

section \<open>Addresses as statuses\<close>

definition lb_hostname :: "string \<Rightarrow> IngressLoadBalancerIngress" where
  "lb_hostname h = \<lparr>IP = [], Hostname = h\<rparr>"

definition lb_ip :: "string \<Rightarrow> IngressLoadBalancerIngress" where
  "lb_ip ip = \<lparr>IP = ip, Hostname = []\<rparr>"

definition sliceToLoadBalancerIngress :: "string list \<Rightarrow> IngressLoadBalancerIngress list" where
  "sliceToLoadBalancerIngress endpoints =
     slice_stable (\<lambda>a b. IP a < IP b)
       (map (\<lambda>ep. if ParseIP_ok ep then lb_ip ep else lb_hostname ep) endpoints)"

text \<open>\<open>strings.Compare\<close> of the host names, then the addresses.\<close>

definition lessLoadBalancerIngress ::
  "IngressLoadBalancerIngress \<Rightarrow> IngressLoadBalancerIngress \<Rightarrow> bool" where
  "lessLoadBalancerIngress a b =
     (if Hostname a < Hostname b then True
      else if Hostname b < Hostname a then False
      else IP a < IP b)"

fun ingressSliceEqual_loop ::
  "IngressLoadBalancerIngress list \<Rightarrow> IngressLoadBalancerIngress list \<Rightarrow> bool" where
  "ingressSliceEqual_loop (l # lhs) (r # rhs) =
     (if IP l \<noteq> IP r then False
      else if Hostname l \<noteq> Hostname r then False
      else ingressSliceEqual_loop lhs rhs)"
| "ingressSliceEqual_loop _ _ = True"

definition ingressSliceEqual ::
  "IngressLoadBalancerIngress list \<Rightarrow> IngressLoadBalancerIngress list \<Rightarrow> bool" where
  "ingressSliceEqual lhs rhs = (if length lhs \<noteq> length rhs then False else ingressSliceEqual_loop lhs rhs)"

section \<open>Updating the statuses\<close>

text \<open>\<open>runUpdate\<close>: the work unit of one ingress. Its errors are logged and dropped.\<close>

definition runUpdate ::
  "'w IngressClient \<Rightarrow> Ingress \<times> IngressLoadBalancerIngress list \<Rightarrow> 'w \<Rightarrow> 'w" where
  "runUpdate client job w = snd (UpdateIngressStatus client (fst job) (snd job) w)"

definition sort_status :: "Ingress \<Rightarrow> Ingress" where
  "sort_status ing = ing\<lparr>LoadBalancerIngress := slice_stable lessLoadBalancerIngress (LoadBalancerIngress ing)\<rparr>"

text \<open>The queued updates, and the ingresses with their statuses sorted.\<close>

definition status_updates ::
  "IngressLoadBalancerIngress list \<Rightarrow> Ingress list \<Rightarrow> (Ingress \<times> IngressLoadBalancerIngress list) list" where
  "status_updates controllerAddresses ings =
     (let addrs = slice_stable lessLoadBalancerIngress controllerAddresses
      in map (\<lambda>ing. (ing, addrs))
           (filter (\<lambda>ing. \<not> ingressSliceEqual (LoadBalancerIngress ing) addrs) (map sort_status ings)))"

definition updateIngStatuses ::
  "'w IngressClient \<Rightarrow>
   ((Ingress \<times> IngressLoadBalancerIngress list) list \<Rightarrow> (Ingress \<times> IngressLoadBalancerIngress list) list) \<Rightarrow>
     IngressLoadBalancerIngress list \<Rightarrow> Ingress list \<Rightarrow> 'w \<Rightarrow> Ingress list \<times> 'w" where
  "updateIngStatuses client schedule controllerAddresses ings w =
     (map sort_status ings, fold (runUpdate client) (schedule (status_updates controllerAddresses ings)) w)"

definition syncStatus ::
  "'w IngressClient \<Rightarrow>
   ((Ingress \<times> IngressLoadBalancerIngress list) list \<Rightarrow> (Ingress \<times> IngressLoadBalancerIngress list) list) \<Rightarrow>
   (string \<Rightarrow> Service list result) \<Rightarrow> PodInfo option \<Rightarrow> Ingress list \<Rightarrow> 'w \<Rightarrow> Ingress list result \<times> 'w" where
  "syncStatus client schedule services currentPod ings w =
     (case GetAddresses services currentPod of
        Err e \<Rightarrow> (Err e, w)
      | Panic p \<Rightarrow> (Panic p, w)
      | Ok addrs \<Rightarrow>
          (let (ings', w') = updateIngStatuses client schedule (sliceToLoadBalancerIngress addrs) ings w
           in (Ok ings', w')))"

section \<open>The comparison\<close>

definition lb_rank :: "IngressLoadBalancerIngress \<Rightarrow> string \<times> string" where
  "lb_rank a = (Hostname a, IP a)"

lemma lessLoadBalancerIngress_rank: "lessLoadBalancerIngress a b \<longleftrightarrow> lb_rank a < lb_rank b"
  by (auto simp: lessLoadBalancerIngress_def lb_rank_def less_prod_def)

interpretation lb_order: keyed_total_order lessLoadBalancerIngress lb_rank
proof (rule keyed_total_order.intro)
  show "strict_weak_order lessLoadBalancerIngress"
    by (rule strict_weak_order_rank [of _ lb_rank]) (rule lessLoadBalancerIngress_rank)
  show "keyed_total_order_axioms lessLoadBalancerIngress lb_rank"
    by unfold_locales (auto simp: lessLoadBalancerIngress_rank)
qed

lemma lb_rank_inject: "lb_rank a = lb_rank b \<Longrightarrow> a = b"
  by (simp add: lb_rank_def)

lemma ingressSliceEqual_iff: "ingressSliceEqual lhs rhs \<longleftrightarrow> lhs = rhs"
proof -
  have "length lhs = length rhs \<Longrightarrow> ingressSliceEqual_loop lhs rhs \<longleftrightarrow> lhs = rhs"
    by (induction lhs rhs rule: list_induct2) auto
  then show ?thesis by (auto simp: ingressSliceEqual_def)
qed

text \<open>Sorting decides equality of the statuses as multisets.\<close>

lemma sorted_lb_unique:
  "mset xs = mset ys \<Longrightarrow> slice_stable lessLoadBalancerIngress xs = slice_stable lessLoadBalancerIngress ys"
proof (rule lb_order.slice_stable_unique [symmetric])
  assume eq: "mset xs = mset ys"
  then show "mset (slice_stable lessLoadBalancerIngress ys) = mset xs" by simp
  show "ranked lessLoadBalancerIngress (slice_stable lessLoadBalancerIngress ys)"
    by (rule lb_order.ranked_slice_stable)
  fix a
  have same: "tied lessLoadBalancerIngress a zs = filter (\<lambda>b. b = a) zs" for zs
    by (rule filter_cong) (auto simp: lessLoadBalancerIngress_rank not_less dest: antisym intro!: lb_rank_inject)
  have "filter (\<lambda>b. b = a) zs = replicate (count (mset zs) a) a" for zs
    by (induction zs) auto
  with eq same show "tied lessLoadBalancerIngress a (slice_stable lessLoadBalancerIngress ys) = tied lessLoadBalancerIngress a xs"
    by simp
qed

lemma sorted_lb_eq_iff:
  "slice_stable lessLoadBalancerIngress xs = slice_stable lessLoadBalancerIngress ys \<longleftrightarrow> mset xs = mset ys"
  using sorted_lb_unique by (metis mset_slice_stable)

text \<open>
  C31. A status sync queues an update for exactly the ingresses whose status is not, up to order,
  the list of the controller's addresses; each update sets that list.
\<close>

theorem status_updates_exact:
  "map (\<lambda>(ing, st). (UID ing, mset st)) (status_updates addrs ings) =
     map (\<lambda>ing. (UID ing, mset addrs)) (filter (\<lambda>ing. mset (LoadBalancerIngress ing) \<noteq> mset addrs) ings)"
proof -
  have "ingressSliceEqual (LoadBalancerIngress (sort_status ing)) (slice_stable lessLoadBalancerIngress addrs)
      \<longleftrightarrow> mset (LoadBalancerIngress ing) = mset addrs" for ing
    by (simp add: ingressSliceEqual_iff sort_status_def sorted_lb_eq_iff)
  then show ?thesis
    by (induction ings) (auto simp: status_updates_def Let_def sort_status_def)
qed

text \<open>
  Every address becomes one entry of the status, an address that parses as an IP under \<open>IP\<close> and
  any other under \<open>Hostname\<close>, and the host names come first.
\<close>

lemma sliceToLoadBalancerIngress_entries:
  "mset (sliceToLoadBalancerIngress eps) =
     mset (map lb_ip (filter ParseIP_ok eps)) + mset (map lb_hostname (filter (\<lambda>ep. \<not> ParseIP_ok ep) eps)) \<and>
   sorted (map IP (sliceToLoadBalancerIngress eps))"
proof
  show "mset (sliceToLoadBalancerIngress eps) =
     mset (map lb_ip (filter ParseIP_ok eps)) + mset (map lb_hostname (filter (\<lambda>ep. \<not> ParseIP_ok ep) eps))"
    by (induction eps) (auto simp: sliceToLoadBalancerIngress_def mset_insert_stable)
  have "strict_weak_order (\<lambda>a b. IP a < IP (b :: IngressLoadBalancerIngress))"
    by (rule strict_weak_order_rank [of _ IP]) simp
  from strict_weak_order.ranked_slice_stable [OF this]
  show "sorted (map IP (sliceToLoadBalancerIngress eps))"
    by (simp add: sliceToLoadBalancerIngress_def sorted_map not_less)
qed

end
