(* ===== verification/Controller.thy ===== *)
theory Controller
  imports Caddy_Convert Ingress_Status
begin

text \<open>
  The package \<open>internal/controller\<close>: the actions that events put on the work queue, the worker that
  takes them off, applies them to the resource store and reloads Caddy, and the start and the end
  of the controller.

  Outside the program, and parameters of the model, are the work queue of client-go (\<open>QueueOps\<close>),
  and in \<open>ControllerEnv\<close>: the decoder and the duration parser of the config map, the JSON encoder, Caddy's \<open>Load\<close> and \<open>Stop\<close>,
  the file system, the secret lister, the services and ingress client of the cluster, the order in
  which the worker pool runs, the order in which a Go map is visited, and the two functions of client-go by which
  goroutines wait (theory \<open>Process\<close>). The converter is the
  interface \<open>Converter\<close> of the package; the program runs with \<open>ConvertToCaddyConfig\<close>. The goroutines
  that deliver events run between the steps of the worker: events go through \<open>ingress_events\<close>,
  \<open>configmap_events\<close> and \<open>secret_events\<close>, which only touch the queue.
\<close>

section \<open>Actions and state\<close>

datatype Action =
    IngressAddedAction Ingress
  | IngressUpdatedAction Ingress Ingress
  | IngressDeletedAction Ingress
  | ConfigMapAddedAction ConfigMap
  | ConfigMapUpdatedAction ConfigMap ConfigMap
  | ConfigMapDeletedAction ConfigMap
  | SecretAddedAction Secret
  | SecretUpdatedAction Secret Secret
  | SecretDeletedAction Secret
  | SyncStatusAction

record 'q QueueOps =
  QAdd :: "Action \<Rightarrow> 'q \<Rightarrow> 'q"
  QGet :: "'q \<Rightarrow> Action option \<times> 'q"
  QDone :: "Action \<Rightarrow> 'q \<Rightarrow> 'q"

record 'q CaddyController =
  resourceStore :: Store
  syncQueue :: 'q
  tlsInformer :: bool
  lastAppliedConfig :: bytes

type_synonym Converter = "Store \<Rightarrow> Config result"

record 'w ControllerEnv =
  EnvNewDecoder :: "DecoderConfig \<Rightarrow> ((string \<times> string) list \<Rightarrow> ConfigMapOptions result) result"
  EnvParseDuration :: "string \<Rightarrow> int result"
  EnvConvert :: Converter
  EnvMarshal :: "Config \<Rightarrow> bytes result"
  EnvLoad :: "bytes \<Rightarrow> 'w \<Rightarrow> unit result \<times> 'w"
  EnvStop :: "'w \<Rightarrow> unit result \<times> 'w"
  EnvRuntimeDir :: string
  EnvMkdirAll :: "string \<Rightarrow> 'w \<Rightarrow> unit result \<times> 'w"
  EnvWriteFile :: "string \<Rightarrow> bytes \<Rightarrow> 'w \<Rightarrow> unit result \<times> 'w"
  EnvRemove :: "string \<Rightarrow> 'w \<Rightarrow> unit result \<times> 'w"
  EnvDataOrder :: "'w \<Rightarrow> (string \<times> bytes) list \<Rightarrow> (string \<times> bytes) list"
  EnvSecretLister :: "'w \<Rightarrow> string \<Rightarrow> string \<Rightarrow> Secret option"
  EnvServices :: "'w \<Rightarrow> string \<Rightarrow> Service list result"
  EnvIngressClient :: "'w IngressClient"
  EnvSchedule :: "(Ingress \<times> IngressLoadBalancerIngress list) list \<Rightarrow>
    (Ingress \<times> IngressLoadBalancerIngress list) list"
  EnvWaitForCacheSync :: "bool \<Rightarrow> bool list \<Rightarrow> bool option"
  EnvUntil :: "bool \<Rightarrow> bool"

section \<open>Events put actions on the queue\<close>

definition enqueue :: "'q QueueOps \<Rightarrow> Action \<Rightarrow> 'q CaddyController \<Rightarrow> 'q CaddyController" where
  "enqueue q action c = c\<lparr>syncQueue := QAdd q action (syncQueue c)\<rparr>"

definition onIngressAdded :: "'q QueueOps \<Rightarrow> Ingress \<Rightarrow> 'q CaddyController \<Rightarrow> 'q CaddyController" where
  "onIngressAdded q obj = enqueue q (IngressAddedAction obj)"

definition onIngressUpdated :: "'q QueueOps \<Rightarrow> Ingress \<Rightarrow> Ingress \<Rightarrow> 'q CaddyController \<Rightarrow> 'q CaddyController" where
  "onIngressUpdated q old new = enqueue q (IngressUpdatedAction new old)"

definition onIngressDeleted :: "'q QueueOps \<Rightarrow> Ingress \<Rightarrow> 'q CaddyController \<Rightarrow> 'q CaddyController" where
  "onIngressDeleted q obj = enqueue q (IngressDeletedAction obj)"

definition onConfigMapAdded :: "'q QueueOps \<Rightarrow> ConfigMap \<Rightarrow> 'q CaddyController \<Rightarrow> 'q CaddyController" where
  "onConfigMapAdded q obj = enqueue q (ConfigMapAddedAction obj)"

definition onConfigMapUpdated ::
  "'q QueueOps \<Rightarrow> ConfigMap \<Rightarrow> ConfigMap \<Rightarrow> 'q CaddyController \<Rightarrow> 'q CaddyController" where
  "onConfigMapUpdated q old new = enqueue q (ConfigMapUpdatedAction new old)"

definition onConfigMapDeleted :: "'q QueueOps \<Rightarrow> ConfigMap \<Rightarrow> 'q CaddyController \<Rightarrow> 'q CaddyController" where
  "onConfigMapDeleted q obj = enqueue q (ConfigMapDeletedAction obj)"

definition onSecretAdded :: "'q QueueOps \<Rightarrow> Secret \<Rightarrow> 'q CaddyController \<Rightarrow> 'q CaddyController" where
  "onSecretAdded q obj c =
     (if IsManagedTLSSecret obj (Ingresses (resourceStore c)) then enqueue q (SecretAddedAction obj) c else c)"

definition onSecretUpdated :: "'q QueueOps \<Rightarrow> Secret \<Rightarrow> Secret \<Rightarrow> 'q CaddyController \<Rightarrow> 'q CaddyController" where
  "onSecretUpdated q old new c =
     (if IsManagedTLSSecret new (Ingresses (resourceStore c))
      then enqueue q (SecretUpdatedAction new old) c else c)"

definition onSecretDeleted :: "'q QueueOps \<Rightarrow> Secret \<Rightarrow> 'q CaddyController \<Rightarrow> 'q CaddyController" where
  "onSecretDeleted q obj = enqueue q (SecretDeletedAction obj)"

definition dispatchSync :: "'q QueueOps \<Rightarrow> 'q CaddyController \<Rightarrow> 'q CaddyController" where
  "dispatchSync q = enqueue q SyncStatusAction"

section \<open>Certificates on disk\<close>

text \<open>The folder is computed once and kept; \<open>RUNTIME_DIRECTORY\<close> does not change during a run.\<close>

definition cert_folder :: "'w ControllerEnv \<Rightarrow> string" where
  "cert_folder env = GetCertFolder (EnvRuntimeDir env) []"

definition secret_file :: "'w ControllerEnv \<Rightarrow> Secret \<Rightarrow> string" where
  "secret_file env s = filepath_Join [cert_folder env, Name s @ ''.pem'']"

definition writeFile :: "'w ControllerEnv \<Rightarrow> Secret \<Rightarrow> 'w \<Rightarrow> unit result \<times> 'w" where
  "writeFile env s w =
     (let content = concat (map snd (EnvDataOrder env w (SecretData s)))
      in EnvWriteFile env (secret_file env s) content w)"

fun write_files :: "'w ControllerEnv \<Rightarrow> Secret list \<Rightarrow> 'w \<Rightarrow> unit result \<times> 'w" where
  "write_files env [] w = (Ok (), w)"
| "write_files env (s # ss) w =
     (case writeFile env s w of
        (Ok _, w1) \<Rightarrow> write_files env ss w1
      | (Err e, w1) \<Rightarrow> (Err e, w1)
      | (Panic p, w1) \<Rightarrow> (Panic p, w1))"

definition watchTLSSecrets ::
  "'w ControllerEnv \<Rightarrow> 'q CaddyController \<Rightarrow> 'w \<Rightarrow> unit result \<times> 'q CaddyController \<times> 'w" where
  "watchTLSSecrets env c w =
     (if \<not> tlsInformer c \<and> HasManagedTLS (resourceStore c) then
        (let (made, w1) = EnvMkdirAll env (cert_folder env) w;
             c1 = c\<lparr>tlsInformer := True\<rparr>;
             (r, w2) = write_files env (ListTLSSecrets (EnvSecretLister env w1) (Ingresses (resourceStore c))) w1
         in case made of
              Ok _ \<Rightarrow> (r, c1, w2)
            | Err e \<Rightarrow> if e \<noteq> ErrExist then (Err e, c, w1) else (r, c1, w2)
            | Panic p \<Rightarrow> (Panic p, c, w1))
      else (Ok (), c, w))"

section \<open>Handling an action\<close>

definition set_ingresses :: "Ingress list \<Rightarrow> 'q CaddyController \<Rightarrow> 'q CaddyController" where
  "set_ingresses ings c = c\<lparr>resourceStore := (resourceStore c)\<lparr>Ingresses := ings\<rparr>\<rparr>"

definition set_configmap :: "ConfigMapOptions option \<Rightarrow> 'q CaddyController \<Rightarrow> 'q CaddyController" where
  "set_configmap cm c = c\<lparr>resourceStore := (resourceStore c)\<lparr>StoreConfigMap := cm\<rparr>\<rparr>"

definition IngressAddedAction_handle ::
  "'w ControllerEnv \<Rightarrow> Ingress \<Rightarrow> 'q CaddyController \<Rightarrow> 'w \<Rightarrow> unit result \<times> 'q CaddyController \<times> 'w" where
  "IngressAddedAction_handle env ing c w =
     watchTLSSecrets env (c\<lparr>resourceStore := AddIngress ing (resourceStore c)\<rparr>) w"

definition IngressUpdatedAction_handle ::
  "'w ControllerEnv \<Rightarrow> Ingress \<Rightarrow> Ingress \<Rightarrow> 'q CaddyController \<Rightarrow> 'w \<Rightarrow> unit result \<times> 'q CaddyController \<times> 'w" where
  "IngressUpdatedAction_handle env ing old c w =
     watchTLSSecrets env (c\<lparr>resourceStore := AddIngress ing (resourceStore c)\<rparr>) w"

definition IngressDeletedAction_handle ::
  "'w ControllerEnv \<Rightarrow> Ingress \<Rightarrow> 'q CaddyController \<Rightarrow> 'w \<Rightarrow> unit result \<times> 'q CaddyController \<times> 'w" where
  "IngressDeletedAction_handle env ing c w =
     (Ok (), c\<lparr>resourceStore := PluckIngress ing (resourceStore c)\<rparr>, w)"

definition ConfigMapAddedAction_handle ::
  "'w ControllerEnv \<Rightarrow> ConfigMap \<Rightarrow> 'q CaddyController \<Rightarrow> 'w \<Rightarrow> unit result \<times> 'q CaddyController \<times> 'w" where
  "ConfigMapAddedAction_handle env cm c w =
     (case ParseConfigMap (EnvNewDecoder env) (EnvParseDuration env) cm of
        Ok cfg \<Rightarrow> (Ok (), set_configmap (Some cfg) c, w)
      | Err e \<Rightarrow> (Err e, c, w)
      | Panic p \<Rightarrow> (Panic p, c, w))"

definition ConfigMapUpdatedAction_handle ::
  "'w ControllerEnv \<Rightarrow> ConfigMap \<Rightarrow> ConfigMap \<Rightarrow> 'q CaddyController \<Rightarrow> 'w \<Rightarrow> unit result \<times> 'q CaddyController \<times> 'w" where
  "ConfigMapUpdatedAction_handle env cm old c w =
     (case ParseConfigMap (EnvNewDecoder env) (EnvParseDuration env) cm of
        Ok cfg \<Rightarrow> (Ok (), set_configmap (Some cfg) c, w)
      | Err e \<Rightarrow> (Err e, c, w)
      | Panic p \<Rightarrow> (Panic p, c, w))"

definition ConfigMapDeletedAction_handle ::
  "'w ControllerEnv \<Rightarrow> ConfigMap \<Rightarrow> 'q CaddyController \<Rightarrow> 'w \<Rightarrow> unit result \<times> 'q CaddyController \<times> 'w" where
  "ConfigMapDeletedAction_handle env cm c w =
     (Ok (), set_configmap None c, w)"

definition SecretAddedAction_handle ::
  "'w ControllerEnv \<Rightarrow> Secret \<Rightarrow> 'q CaddyController \<Rightarrow> 'w \<Rightarrow> unit result \<times> 'q CaddyController \<times> 'w" where
  "SecretAddedAction_handle env s c w =
     (case writeFile env s w of (r, w') \<Rightarrow> (r, c, w'))"

definition SecretUpdatedAction_handle ::
  "'w ControllerEnv \<Rightarrow> Secret \<Rightarrow> Secret \<Rightarrow> 'q CaddyController \<Rightarrow> 'w \<Rightarrow> unit result \<times> 'q CaddyController \<times> 'w" where
  "SecretUpdatedAction_handle env s old c w =
     (case writeFile env s w of (r, w') \<Rightarrow> (r, c, w'))"

definition SecretDeletedAction_handle ::
  "'w ControllerEnv \<Rightarrow> Secret \<Rightarrow> 'q CaddyController \<Rightarrow> 'w \<Rightarrow> unit result \<times> 'q CaddyController \<times> 'w" where
  "SecretDeletedAction_handle env s c w =
     (case EnvRemove env (secret_file env s) w of (r, w') \<Rightarrow> (r, c, w'))"

definition SyncStatusAction_handle ::
  "'w ControllerEnv \<Rightarrow> 'q CaddyController \<Rightarrow> 'w \<Rightarrow> unit result \<times> 'q CaddyController \<times> 'w" where
  "SyncStatusAction_handle env c w =
     (case syncStatus (EnvIngressClient env) (EnvSchedule env) (EnvServices env w)
             (CurrentPod (resourceStore c)) (Ingresses (resourceStore c)) w of
        (Ok ings, w') \<Rightarrow> (Ok (), set_ingresses ings c, w')
      | (Err e, w') \<Rightarrow> (Err e, c, w')
      | (Panic p, w') \<Rightarrow> (Panic p, c, w'))"

text \<open>The method \<open>handle\<close> of the interface \<open>Action\<close>.\<close>

fun handle ::
  "'w ControllerEnv \<Rightarrow> Action \<Rightarrow> 'q CaddyController \<Rightarrow> 'w \<Rightarrow> unit result \<times> 'q CaddyController \<times> 'w" where
  "handle env (IngressAddedAction ing) c w = IngressAddedAction_handle env ing c w"
| "handle env (IngressUpdatedAction ing old) c w = IngressUpdatedAction_handle env ing old c w"
| "handle env (IngressDeletedAction ing) c w = IngressDeletedAction_handle env ing c w"
| "handle env (ConfigMapAddedAction cm) c w = ConfigMapAddedAction_handle env cm c w"
| "handle env (ConfigMapUpdatedAction cm old) c w = ConfigMapUpdatedAction_handle env cm old c w"
| "handle env (ConfigMapDeletedAction cm) c w = ConfigMapDeletedAction_handle env cm c w"
| "handle env (SecretAddedAction s) c w = SecretAddedAction_handle env s c w"
| "handle env (SecretUpdatedAction s old) c w = SecretUpdatedAction_handle env s old c w"
| "handle env (SecretDeletedAction s) c w = SecretDeletedAction_handle env s c w"
| "handle env SyncStatusAction c w = SyncStatusAction_handle env c w"

section \<open>The worker\<close>

definition reloadCaddy ::
  "'w ControllerEnv \<Rightarrow> 'q CaddyController \<Rightarrow> 'w \<Rightarrow> unit result \<times> 'q CaddyController \<times> 'w" where
  "reloadCaddy env c w =
     (case bind_result (EnvConvert env (resourceStore c)) (EnvMarshal env) of
        Err e \<Rightarrow> (Err e, c, w)
      | Panic p \<Rightarrow> (Panic p, c, w)
      | Ok j \<Rightarrow>
          if lastAppliedConfig c = j then (Ok (), c, w)
          else (case EnvLoad env j w of
                  (Err e, w') \<Rightarrow> (Err (Formatted ''could not reload caddy config'' e), c, w')
                | (Panic p, w') \<Rightarrow> (Panic p, c, w')
                | (Ok _, w') \<Rightarrow> (Ok (), c\<lparr>lastAppliedConfig := j\<rparr>, w')))"

text \<open>What \<open>processNextItem\<close> does with an action: an error ends the turn, not the worker.\<close>

definition process_action ::
  "'w ControllerEnv \<Rightarrow> Action \<Rightarrow> 'q CaddyController \<Rightarrow> 'w \<Rightarrow> bool result \<times> 'q CaddyController \<times> 'w" where
  "process_action env action c w =
     (case handle env action c w of
        (Err e, c1, w1) \<Rightarrow> (Ok True, c1, w1)
      | (Panic p, c1, w1) \<Rightarrow> (Panic p, c1, w1)
      | (Ok _, c1, w1) \<Rightarrow>
          (case reloadCaddy env c1 w1 of
             (Panic p, c2, w2) \<Rightarrow> (Panic p, c2, w2)
           | (_, c2, w2) \<Rightarrow> (Ok True, c2, w2)))"

definition processNextItem ::
  "'q QueueOps \<Rightarrow> 'w ControllerEnv \<Rightarrow> 'q CaddyController \<Rightarrow> 'w \<Rightarrow> bool result \<times> 'q CaddyController \<times> 'w" where
  "processNextItem q env c w =
     (case QGet q (syncQueue c) of
        (None, queue) \<Rightarrow> (Ok False, c\<lparr>syncQueue := queue\<rparr>, w)
      | (Some action, queue) \<Rightarrow>
          (let (r, c1, w1) = process_action env action (c\<lparr>syncQueue := queue\<rparr>) w
           in (r, c1\<lparr>syncQueue := QDone q action (syncQueue c1)\<rparr>, w1)))"

partial_function (option) runWorker ::
  "'q QueueOps \<Rightarrow> 'w ControllerEnv \<Rightarrow> 'q CaddyController \<Rightarrow> 'w \<Rightarrow> (unit result \<times> 'q CaddyController \<times> 'w) option" where
  "runWorker q env c w =
     (let (r, c1, w1) = processNextItem q env c w
      in if r = Ok True then runWorker q env c1 w1
         else Some (bind_result r (\<lambda>_. Ok ()), c1, w1))"

section \<open>Start and end\<close>

text \<open>The namespace and the name of the config map: from the flag, or from the pod.\<close>

definition config_map_location :: "Options \<Rightarrow> PodInfo option \<Rightarrow> (string \<times> string) result" where
  "config_map_location opts podInfo =
     (case SplitN2 CHR ''/'' (ConfigMapName opts) of
        [ns, name] \<Rightarrow> Ok (ns, name)
      | _ \<Rightarrow>
          (case podInfo of
             Some pod \<Rightarrow> Ok (PodNamespace pod, ConfigMapName opts)
           | None \<Rightarrow> Panic (FatalExit ''Must set a namespace for -config-map when running outside a cluster'')))"

definition ingress_events :: "'q QueueOps \<Rightarrow> Options \<Rightarrow> event \<Rightarrow> 'q CaddyController \<Rightarrow> 'q CaddyController" where
  "ingress_events q opts =
     WatchIngresses \<lparr>ParamsClassName = ClassName opts, ParamsClassNameRequired = ClassNameRequired opts\<rparr>
       \<lparr>AddFunc = onIngressAdded q, UpdateFunc = onIngressUpdated q, DeleteFunc = onIngressDeleted q\<rparr>"

definition configmap_events ::
  "'q QueueOps \<Rightarrow> string \<times> string \<Rightarrow> event \<Rightarrow> 'q CaddyController \<Rightarrow> 'q CaddyController" where
  "configmap_events q location =
     WatchConfigMaps \<lparr>ParamsNamespace = fst location, ParamsConfigMapName = snd location\<rparr>
       \<lparr>AddFunc = onConfigMapAdded q, UpdateFunc = onConfigMapUpdated q, DeleteFunc = onConfigMapDeleted q\<rparr>"

definition secret_events :: "'q QueueOps \<Rightarrow> event \<Rightarrow> 'q CaddyController \<Rightarrow> 'q CaddyController" where
  "secret_events q =
     WatchTLSSecrets
       \<lparr>AddFunc = onSecretAdded q, UpdateFunc = onSecretUpdated q, DeleteFunc = onSecretDeleted q\<rparr>"

text \<open>
  \<open>NewCaddyController\<close>: the controller with the config map it watches; \<open>get\<close>, \<open>podName\<close> and \<open>podNs\<close>
  are what \<open>GetPodDetails\<close> reads, and \<open>queue\<close> is an empty work queue.
\<close>

definition NewCaddyController ::
  "(string \<Rightarrow> string \<Rightarrow> Pod option) \<Rightarrow> string \<Rightarrow> string \<Rightarrow> 'q \<Rightarrow> Options \<Rightarrow>
     ('q CaddyController \<times> string \<times> string) result" where
  "NewCaddyController get podName podNs queue opts =
     (case GetPodDetails get podName podNs of
        Err e \<Rightarrow> Panic (FatalExit ''Unexpected error obtaining pod information'')
      | Panic p \<Rightarrow> Panic p
      | Ok podInfo \<Rightarrow>
          bind_result (config_map_location opts podInfo) (\<lambda>location.
            Ok (\<lparr>resourceStore = NewStore opts (fst location) podInfo, syncQueue = queue,
                 tlsInformer = False, lastAppliedConfig = []\<rparr>, location)))"

definition Shutdown ::
  "'w ControllerEnv \<Rightarrow> ('w \<Rightarrow> 'w) \<Rightarrow> 'q CaddyController \<Rightarrow> 'w \<Rightarrow> unit result \<times> 'q CaddyController \<times> 'w" where
  "Shutdown env CleanUpOwnLocks c w =
     (let (ings, w1) = updateIngStatuses (EnvIngressClient env) (EnvSchedule env)
            [\<lparr>IP = [], Hostname = []\<rparr>] (Ingresses (resourceStore c)) w;
          c1 = set_ingresses ings c
      in case EnvStop env w1 of
           (Err e, w2) \<Rightarrow> (Err e, c1, w2)
         | (Panic p, w2) \<Rightarrow> (Panic p, c1, w2)
         | (Ok _, w2) \<Rightarrow> (Ok (), c1, CleanUpOwnLocks w2))"

text \<open>The end of \<open>Run\<close>, after the stop channel is closed: the exit code of the process.\<close>

definition Run_exit :: "'w ControllerEnv \<Rightarrow> ('w \<Rightarrow> 'w) \<Rightarrow> 'q CaddyController \<Rightarrow> 'w \<Rightarrow> int result \<times> 'w" where
  "Run_exit env CleanUpOwnLocks c w =
     (case Shutdown env CleanUpOwnLocks c w of
        (Ok _, c', w') \<Rightarrow> (Ok 0, w')
      | (Err e, c', w') \<Rightarrow> (Ok 1, w')
      | (Panic p, c', w') \<Rightarrow> (Panic p, w'))"

lemmas action_handle_defs [action_defs] =
  IngressAddedAction_handle_def IngressUpdatedAction_handle_def IngressDeletedAction_handle_def
  ConfigMapAddedAction_handle_def ConfigMapUpdatedAction_handle_def ConfigMapDeletedAction_handle_def
  SecretAddedAction_handle_def SecretUpdatedAction_handle_def SecretDeletedAction_handle_def
  SyncStatusAction_handle_def set_ingresses_def set_configmap_def

section \<open>What an action does to the store\<close>

text \<open>
  The abstract effect of an action: changes of the map from UIDs to ingresses, and of the options
  of the config map. A status sync sorts the statuses of the stored ingresses in place, so the map is
  seen up to the order of the entries of a status (\<open>canonical\<close>).
\<close>

fun ingress_changes :: "Action \<Rightarrow> Ingress change list" where
  "ingress_changes (IngressAddedAction ing) = [Upsert ing]"
| "ingress_changes (IngressUpdatedAction ing old) = [Upsert ing]"
| "ingress_changes (IngressDeletedAction ing) = [Remove ing]"
| "ingress_changes _ = []"

definition parsed_or :: "'w ControllerEnv \<Rightarrow> ConfigMap \<Rightarrow> ConfigMapOptions option \<Rightarrow> ConfigMapOptions option" where
  "parsed_or env cm old =
     (case ParseConfigMap (EnvNewDecoder env) (EnvParseDuration env) cm of Ok cfg \<Rightarrow> Some cfg | _ \<Rightarrow> old)"

fun config_change :: "'w ControllerEnv \<Rightarrow> Action \<Rightarrow> ConfigMapOptions option \<Rightarrow> ConfigMapOptions option" where
  "config_change env (ConfigMapAddedAction cm) old = parsed_or env cm old"
| "config_change env (ConfigMapUpdatedAction cm cm') old = parsed_or env cm old"
| "config_change env (ConfigMapDeletedAction cm) old = None"
| "config_change env _ old = old"

definition canonical :: "(string \<rightharpoonup> Ingress) \<Rightarrow> (string \<rightharpoonup> Ingress)" where
  "canonical m = (\<lambda>uid. map_option sort_status (m uid))"

definition held_ingresses :: "'q CaddyController \<Rightarrow> (string \<rightharpoonup> Ingress)" where
  "held_ingresses c = lookup_key UID (Ingresses (resourceStore c))"

text \<open>The parts of the controller an action leaves alone.\<close>

definition same_frame :: "'q CaddyController \<Rightarrow> 'q CaddyController \<Rightarrow> bool" where
  "same_frame c c' \<longleftrightarrow>
     syncQueue c' = syncQueue c \<and>
     StoreOptions (resourceStore c') = StoreOptions (resourceStore c) \<and>
     ConfigNamespace (resourceStore c') = ConfigNamespace (resourceStore c) \<and>
     CurrentPod (resourceStore c') = CurrentPod (resourceStore c)"

lemma same_frame_refl [simp]: "same_frame c c"
  by (simp add: same_frame_def)

lemma same_frame_trans: "same_frame c c' \<Longrightarrow> same_frame c' c'' \<Longrightarrow> same_frame c c''"
  by (simp add: same_frame_def)

lemma UID_sort_status [simp]: "UID (sort_status ing) = UID ing"
  by (simp add: sort_status_def)

lemma sort_status_idem [simp]: "sort_status (sort_status ing) = sort_status ing"
  using sorted_lb_unique [of "slice_stable lessLoadBalancerIngress (LoadBalancerIngress ing)" "LoadBalancerIngress ing"]
  by (simp add: sort_status_def)

lemma lookup_key_sort_status: "lookup_key UID (map sort_status ings) = canonical (lookup_key UID ings)"
  by (rule ext, induction ings) (auto simp: lookup_key_def canonical_def)

lemma canonical_store_change:
  "canonical m = canonical m' \<Longrightarrow> canonical (store_change UID ch m) = canonical (store_change UID ch m')"
  by (cases ch) (auto simp: canonical_def fun_eq_iff)

lemma canonical_fold_store_change:
  "canonical m = canonical m' \<Longrightarrow>
     canonical (fold (store_change UID) chs m) = canonical (fold (store_change UID) chs m')"
proof (induction chs arbitrary: m m')
  case (Cons ch chs)
  from Cons.IH [OF canonical_store_change [OF Cons.prems]] show ?case by simp
qed simp

lemma store_parts [simp]:
  "StoreOptions (AddIngress ing s) = StoreOptions s" "StoreOptions (PluckIngress ing s) = StoreOptions s"
  "ConfigNamespace (AddIngress ing s) = ConfigNamespace s" "ConfigNamespace (PluckIngress ing s) = ConfigNamespace s"
  "CurrentPod (AddIngress ing s) = CurrentPod s" "CurrentPod (PluckIngress ing s) = CurrentPod s"
  "StoreConfigMap (AddIngress ing s) = StoreConfigMap s" "StoreConfigMap (PluckIngress ing s) = StoreConfigMap s"
  by (simp_all add: AddIngress_def PluckIngress_def Let_def split: prod.split option.split)

lemma watchTLSSecrets_frame:
  "watchTLSSecrets env c w = (r, c', w') \<Longrightarrow>
     resourceStore c' = resourceStore c \<and> syncQueue c' = syncQueue c \<and> lastAppliedConfig c' = lastAppliedConfig c"
  by (auto simp: watchTLSSecrets_def Let_def split: if_splits prod.splits result.splits)

lemma reloadCaddy_frame:
  "reloadCaddy env c w = (r, c', w') \<Longrightarrow>
     resourceStore c' = resourceStore c \<and> syncQueue c' = syncQueue c \<and> tlsInformer c' = tlsInformer c"
  by (auto simp: reloadCaddy_def split: if_splits prod.splits result.splits)

lemma syncStatus_ingresses:
  "syncStatus client schedule services pod ings w = (Ok ings', w') \<Longrightarrow> ings' = map sort_status ings"
  by (auto simp: syncStatus_def updateIngStatuses_def split: result.splits)

lemma handle_store:
  assumes "handle env action c w = (r, c', w')"
  shows "map sort_status (Ingresses (resourceStore c')) =
      map sort_status (Ingresses (fold (apply_change AddIngress PluckIngress) (ingress_changes action) (resourceStore c)))"
    and "StoreConfigMap (resourceStore c') = config_change env action (StoreConfigMap (resourceStore c))"
    and "same_frame c c'" and "lastAppliedConfig c' = lastAppliedConfig c"
  using assms
  by (cases action; auto simp: action_defs parsed_or_def same_frame_def comp_def
      dest!: watchTLSSecrets_frame syncStatus_ingresses split: prod.splits result.splits)+

lemma process_action_store:
  assumes "process_action env action c w = (r, c', w')"
  shows "map sort_status (Ingresses (resourceStore c')) =
      map sort_status (Ingresses (fold (apply_change AddIngress PluckIngress) (ingress_changes action) (resourceStore c)))"
    and "StoreConfigMap (resourceStore c') = config_change env action (StoreConfigMap (resourceStore c))"
    and "same_frame c c'"
proof -
  obtain r1 c1 w1 where h: "handle env action c w = (r1, c1, w1)" by (metis prod_cases3)
  have "resourceStore c' = resourceStore c1 \<and> syncQueue c' = syncQueue c1"
    using assms h
    by (auto simp: process_action_def dest!: reloadCaddy_frame split: prod.splits result.splits)
  with handle_store [OF h] show "map sort_status (Ingresses (resourceStore c')) =
      map sort_status (Ingresses (fold (apply_change AddIngress PluckIngress) (ingress_changes action) (resourceStore c)))"
    and "StoreConfigMap (resourceStore c') = config_change env action (StoreConfigMap (resourceStore c))"
    and "same_frame c c'"
    by (simp_all add: same_frame_def)
qed

lemma map_UID_sort_status: "map UID (map sort_status ings) = map UID ings"
  by (induction ings) simp_all

lemma process_action_held:
  assumes "process_action env action c w = (r, c', w')" and "uid_distinct (resourceStore c)"
  shows "uid_distinct (resourceStore c')"
    and "canonical (held_ingresses c') = canonical (fold (store_change UID) (ingress_changes action) (held_ingresses c))"
proof -
  let ?s = "fold (apply_change AddIngress PluckIngress) (ingress_changes action) (resourceStore c)"
  note chs = ingress_store.fold_changes [OF assms(2), of "ingress_changes action"]
  have eq: "map sort_status (Ingresses (resourceStore c')) = map sort_status (Ingresses ?s)"
    by (rule process_action_store [OF assms(1)])
  then have "map UID (Ingresses (resourceStore c')) = map UID (Ingresses ?s)"
    by (metis map_UID_sort_status)
  with chs(1) show "uid_distinct (resourceStore c')" by simp
  show "canonical (held_ingresses c') = canonical (fold (store_change UID) (ingress_changes action) (held_ingresses c))"
    using eq chs(2) by (metis held_ingresses_def lookup_key_sort_status)
qed

section \<open>Sequences of actions\<close>

text \<open>The worker on a sequence of actions: a panic ends the process.\<close>

fun run_actions ::
  "'w ControllerEnv \<Rightarrow> Action list \<Rightarrow> 'q CaddyController \<Rightarrow> 'w \<Rightarrow> unit result \<times> 'q CaddyController \<times> 'w" where
  "run_actions env [] c w = (Ok (), c, w)"
| "run_actions env (action # actions) c w =
     (case process_action env action c w of
        (Ok _, c1, w1) \<Rightarrow> run_actions env actions c1 w1
      | (Err e, c1, w1) \<Rightarrow> (Err e, c1, w1)
      | (Panic p, c1, w1) \<Rightarrow> (Panic p, c1, w1))"

lemma run_actions_ConsE:
  assumes "run_actions env (action # actions) c w = (Ok (), c', w')"
  obtains c1 w1 b where "process_action env action c w = (Ok b, c1, w1)"
    and "run_actions env actions c1 w1 = (Ok (), c', w')"
  using assms by (auto split: prod.splits result.splits)

lemma run_actions_held:
  assumes "run_actions env actions c w = (Ok (), c', w')" and "uid_distinct (resourceStore c)"
  shows "uid_distinct (resourceStore c') \<and>
    canonical (held_ingresses c') =
      canonical (fold (store_change UID) (concat (map ingress_changes actions)) (held_ingresses c)) \<and>
    StoreConfigMap (resourceStore c') = fold (config_change env) actions (StoreConfigMap (resourceStore c)) \<and>
    same_frame c c'"
  using assms
proof (induction actions arbitrary: c w)
  case Nil
  then show ?case by simp
next
  case (Cons action actions)
  from Cons.prems(1) obtain c1 w1 b where step: "process_action env action c w = (Ok b, c1, w1)"
    and rest: "run_actions env actions c1 w1 = (Ok (), c', w')" by (rule run_actions_ConsE)
  note first = process_action_held [OF step Cons.prems(2)] process_action_store(2,3) [OF step]
  from Cons.IH [OF rest first(1)] first show ?case
    by (auto dest: canonical_fold_store_change intro: same_frame_trans)
qed

end
