(* ===== verification/Worker.thy ===== *)
theory Worker
  imports Controller
begin

text \<open>
  The worker of the controller in its world: what a sequence of actions leaves in the store, which
  configuration Caddy runs, when the worker panics, that it drains its queue, and which
  certificates are on disk. The contract of the world is the locale \<open>controller_world\<close>; \<open>caddy_controller\<close>
  adds that the converter is the one of \<open>internal/caddy\<close>, and \<open>work_queue\<close> is the contract of the queue.
\<close>

section \<open>The store after a sequence of actions\<close>

text \<open>
  C17. From a new controller, any sequence of actions that the worker gets through leaves a store in
  which every UID occurs once, which is, up to the order of the entries of a status, the map that the
  additions, updates and deletions among the actions build in their order, and whose options are
  those of the last config map that was parsed, or nil after a deletion. Errors of a handler or of a
  reload do not matter: no change is lost.
\<close>

theorem actions_refine_map:
  assumes "NewCaddyController get podName podNs queue opts = Ok (c, location)"
    and "run_actions env actions c w = (Ok (), c', w')"
  shows "distinct (map UID (Ingresses (resourceStore c'))) \<and>
    canonical (held_ingresses c') =
      canonical (fold (store_change UID) (concat (map ingress_changes actions)) Map.empty) \<and>
    StoreConfigMap (resourceStore c') = fold (config_change env) actions (Some zeroConfigMapOptions) \<and>
    StoreOptions (resourceStore c') = opts \<and> ConfigNamespace (resourceStore c') = fst location"
proof -
  obtain podInfo where c: "resourceStore c = NewStore opts (fst location) podInfo"
    using assms(1) by (auto simp: NewCaddyController_def split: result.splits)
  then have "uid_distinct (resourceStore c)" and "held_ingresses c = Map.empty"
    by (auto simp: NewStore_def held_ingresses_def lookup_key_def)
  with run_actions_held [OF assms(2)] c show ?thesis
    by (simp add: same_frame_def NewStore_def)
qed

section \<open>The world of the controller\<close>

text \<open>
  What the controller relies on outside the program. \<open>loaded\<close> is the configuration Caddy runs:
  a successful \<open>Load\<close> replaces it and a failed one leaves the old one in place; only \<open>Load\<close>
  changes it while the controller runs. \<open>files\<close> are the files on disk. Calls return errors, they do not
  panic, and no configuration is encoded as the empty string.
\<close>

text \<open>Caddy runs the configuration the controller remembers as the last it applied.\<close>

definition in_sync :: "('w \<Rightarrow> bytes option) \<Rightarrow> 'q CaddyController \<Rightarrow> 'w \<Rightarrow> bool" where
  "in_sync loaded c w \<longleftrightarrow> loaded w = (if lastAppliedConfig c = [] then None else Some (lastAppliedConfig c))"

text \<open>
  What Caddy should run after a reload: the configuration of the store, if it converts and encodes
  and either is the last one applied or is loaded without error; otherwise what it ran before.
\<close>

definition running_after ::
  "'w ControllerEnv \<Rightarrow> ('w \<Rightarrow> bytes option) \<Rightarrow> 'q CaddyController \<Rightarrow> 'w \<Rightarrow> bytes option" where
  "running_after env loaded c w =
     (case bind_result (EnvConvert env (resourceStore c)) (EnvMarshal env) of
        Ok j \<Rightarrow> if lastAppliedConfig c = j \<or> is_Ok (fst (EnvLoad env j w)) then Some j else loaded w
      | _ \<Rightarrow> loaded w)"

locale controller_world =
  fixes env :: "'w ControllerEnv"
    and loaded :: "'w \<Rightarrow> bytes option"
    and files :: "'w \<Rightarrow> string \<rightharpoonup> bytes"
  assumes load: "EnvLoad env j w = (r, w') \<Longrightarrow>
      loaded w' = (if is_Ok r then Some j else loaded w) \<and> r \<noteq> Panic p"
    and mkdir: "EnvMkdirAll env d w = (r, w') \<Longrightarrow> loaded w' = loaded w \<and> files w' = files w \<and> r \<noteq> Panic p"
    and write_file: "EnvWriteFile env f b w = (r, w') \<Longrightarrow>
      loaded w' = loaded w \<and> (is_Ok r \<longrightarrow> files w' = (files w)(f \<mapsto> b)) \<and> r \<noteq> Panic p"
    and remove: "EnvRemove env f w = (r, w') \<Longrightarrow> loaded w' = loaded w \<and> r \<noteq> Panic p"
    and ingress_get: "IngressGet (EnvIngressClient env) ns n w = (ri, w') \<Longrightarrow> loaded w' = loaded w"
    and ingress_update: "IngressUpdateStatus (EnvIngressClient env) ns ing w = (ri, w') \<Longrightarrow> loaded w' = loaded w"
    and services: "EnvServices env w ns \<noteq> Panic p"
    and marshal: "EnvMarshal env cfg \<noteq> Panic p \<and> EnvMarshal env cfg \<noteq> Ok []"
    and decoder: "EnvNewDecoder env dc \<noteq> Panic p"
    and decode: "EnvNewDecoder env dc = Ok dec \<Longrightarrow> dec data \<noteq> Panic p"
begin

lemma write_files_world:
  "write_files env ss w = (r, w') \<Longrightarrow>
     loaded w' = loaded w \<and> r \<noteq> Panic p"
proof (induction ss arbitrary: w)
  case Nil
  then show ?case by auto
next
  case (Cons s ss)
  obtain r1 w1 where one: "writeFile env s w = (r1, w1)" by (meson surj_pair)
  then have "loaded w1 = loaded w" "r1 \<noteq> Panic p" for p
    by (auto simp: writeFile_def Let_def dest: write_file)
  then show ?case
    using Cons.prems one Cons.IH [of w1] by (cases r1) auto
qed

lemma watchTLSSecrets_world:
  assumes "watchTLSSecrets env c w = (r, c', w')"
  shows "loaded w' = loaded w \<and> r \<noteq> Panic p"
proof -
  obtain made w1 where made: "EnvMkdirAll env (cert_folder env) w = (made, w1)" by (meson surj_pair)
  obtain r2 w2 where written: "write_files env
      (ListTLSSecrets (EnvSecretLister env w1) (Ingresses (resourceStore c))) w1 = (r2, w2)"
    by (meson surj_pair)
  show ?thesis
    using assms made written mkdir [OF made, of p] write_files_world [OF written, of p]
    by (auto simp: watchTLSSecrets_def Let_def split: if_splits result.splits)
qed

lemma runUpdate_world: "loaded (runUpdate (EnvIngressClient env) job w) = loaded w"
proof -
  have "loaded (snd (IngressUpdateStatus (EnvIngressClient env) ns ing w)) = loaded w" for ns ing w
    by (cases "IngressUpdateStatus (EnvIngressClient env) ns ing w") (auto dest: ingress_update)
  then show ?thesis
    by (auto simp: runUpdate_def UpdateIngressStatus_def split: prod.split result.split dest!: ingress_get)
qed

lemma fold_runUpdate_world: "loaded (fold (runUpdate (EnvIngressClient env)) jobs w) = loaded w"
  by (induction jobs arbitrary: w) (simp_all add: runUpdate_world)

lemma syncStatus_world:
  assumes "syncStatus (EnvIngressClient env) schedule (EnvServices env v) pod ings w = (r, w')"
  shows "loaded w' = loaded w \<and> r \<noteq> Panic p"
proof -
  have "GetAddresses (EnvServices env v) pod \<noteq> Panic q" for q
    using services by (cases pod; cases "EnvServices env v (PodNamespace (the pod))") (auto simp: GetAddresses_def)
  with assms show ?thesis
    by (auto simp: syncStatus_def updateIngStatuses_def fold_runUpdate_world split: result.splits)
qed

lemma ParseConfigMap_no_panic: "ParseConfigMap (EnvNewDecoder env) parse cm \<noteq> Panic p"
  using decoder decode by (auto simp: ParseConfigMap_def split: result.splits)

lemma handle_world:
  assumes "handle env action c w = (r, c', w')"
  shows "loaded w' = loaded w \<and> r \<noteq> Panic p"
proof (cases action)
  case SyncStatusAction
  with assms show ?thesis
    by (auto simp: SyncStatusAction_handle_def split: prod.splits result.splits dest!: syncStatus_world [where p = p])
qed (use assms ParseConfigMap_no_panic in \<open>auto simp: action_defs writeFile_def Let_def split: prod.splits result.splits
      dest!: watchTLSSecrets_world write_file remove\<close>)

lemma reload_world:
  assumes "reloadCaddy env c w = (r, c', w')" and "in_sync loaded c w"
  shows "in_sync loaded c' w' \<and> loaded w' = running_after env loaded c w"
proof (cases "bind_result (EnvConvert env (resourceStore c)) (EnvMarshal env)")
  case (Ok j)
  then obtain cfg where j: "EnvConvert env (resourceStore c) = Ok cfg" "EnvMarshal env cfg = Ok j" by auto
  then have "j \<noteq> []" using marshal [of cfg] by auto
  obtain rl wl where "EnvLoad env j w = (rl, wl)" by (meson surj_pair)
  with assms j Ok \<open>j \<noteq> []\<close> load [OF this] show ?thesis
    by (cases rl) (auto simp: reloadCaddy_def in_sync_def running_after_def split: if_splits)
qed (use assms in \<open>auto simp: reloadCaddy_def running_after_def\<close>)

lemma reload_panics_iff:
  assumes "reloadCaddy env c w = (r, c', w')"
  shows "r = Panic p \<longleftrightarrow> EnvConvert env (resourceStore c) = Panic p"
proof (cases "EnvConvert env (resourceStore c)")
  case (Ok cfg)
  then show ?thesis
    using assms marshal [of cfg] by (cases "EnvMarshal env cfg")
      (auto simp: reloadCaddy_def split: if_splits prod.splits result.splits dest!: load [where p = p])
qed (use assms in \<open>auto simp: reloadCaddy_def\<close>)

end

context controller_world
begin

lemma process_action_world:
  assumes "process_action env action c w = (r, c', w')" and "in_sync loaded c w"
    and "handle env action c w = (r1, c1, w1)"
  shows "in_sync loaded c' w'"
    and "loaded w' = (if is_Ok r1 then running_after env loaded c1 w1 else loaded w)"
proof -
  obtain r2 c2 w2 where l: "reloadCaddy env c1 w1 = (r2, c2, w2)" by (metis prod_cases3)
  have w1: "loaded w1 = loaded w" using handle_world [OF assms(3)] by blast
  with assms(2) handle_store(4) [OF assms(3)] have sync: "in_sync loaded c1 w1" by (simp add: in_sync_def)
  consider "is_Ok r1" "c' = c2" "w' = w2" | "\<not> is_Ok r1" "c' = c1" "w' = w1"
    using assms(1,3) l by (cases r1; cases r2) (auto simp: process_action_def)
  then show "in_sync loaded c' w'"
    and "loaded w' = (if is_Ok r1 then running_after env loaded c1 w1 else loaded w)"
    using reload_world [OF l sync] w1 sync by (cases; auto)+
qed

lemma run_actions_world:
  assumes "run_actions env actions c w = (r, c', w')" and "in_sync loaded c w"
  shows "in_sync loaded c' w'"
  using assms
proof (induction actions arbitrary: c w)
  case (Cons action actions)
  obtain r1 c1 w1 where step: "process_action env action c w = (r1, c1, w1)" by (metis prod_cases3)
  obtain rh ch wh where "handle env action c w = (rh, ch, wh)" by (metis prod_cases3)
  from process_action_world(1) [OF step Cons.prems(2) this] Cons.IH [of c1 w1] Cons.prems(1) step
  show ?case by (cases r1) auto
qed simp

text \<open>The worker panics only where the conversion does.\<close>

lemma process_action_panics:
  assumes "process_action env action c w = (r, c', w')"
  shows "(\<exists>p. r = Panic p \<and> EnvConvert env (resourceStore c') = Panic p) \<or> r = Ok True"
proof -
  obtain r1 c1 w1 where h: "handle env action c w = (r1, c1, w1)" by (metis prod_cases3)
  obtain r2 c2 w2 where l: "reloadCaddy env c1 w1 = (r2, c2, w2)" by (metis prod_cases3)
  have "r1 \<noteq> Panic p" for p using handle_world [OF h] by blast
  with assms h l reload_panics_iff [OF l] reloadCaddy_frame [OF l] show ?thesis
    by (cases r1; cases r2) (auto simp: process_action_def)
qed

end

lemma process_action_crashes:
  assumes "handle env action c w = (Ok u, c1, w1)" and "EnvConvert env (resourceStore c1) = Panic p"
  shows "process_action env action c w = (Panic p, c1, w1)"
  using assms by (simp add: process_action_def reloadCaddy_def)

section \<open>Actions that keep the store fit for conversion\<close>

definition benign :: "Action \<Rightarrow> bool" where
  "benign action =
     (case action of
        IngressAddedAction ing \<Rightarrow> wf_ingress ing
      | IngressUpdatedAction ing old \<Rightarrow> wf_ingress ing
      | ConfigMapDeletedAction cm \<Rightarrow> False
      | _ \<Rightarrow> True)"

lemma wf_sort_status [simp]: "wf_ingress (sort_status ing) = wf_ingress ing"
  by (simp add: wf_ingress_def sort_status_def)

lemma set_PluckIngress_subset: "set (Ingresses (PluckIngress ing s)) \<subseteq> set (Ingresses s)"
proof (cases ing s rule: PluckIngress_cases)
  case (present ys x zs)
  then have "set (Ingresses (PluckIngress ing s)) = set ys \<union> set zs"
    by (metis set_append set_mset_mset mset_append)
  with present(1) show ?thesis by auto
qed simp

lemma process_action_wf_store:
  assumes "process_action env action c w = (r, c', w')" and "benign action" and "wf_store (resourceStore c)"
  shows "wf_store (resourceStore c')"
proof -
  let ?s = "fold (apply_change AddIngress PluckIngress) (ingress_changes action) (resourceStore c)"
  have "\<forall>ing \<in> set (Ingresses ?s). wf_ingress ing"
    using assms(2,3) set_PluckIngress_subset
    by (cases action) (auto simp: benign_def wf_store_def list_all_iff set_AddIngress)
  then have "\<forall>ing \<in> set (map sort_status (Ingresses (resourceStore c'))). wf_ingress ing"
    unfolding process_action_store(1) [OF assms(1)] by simp
  moreover have "StoreConfigMap (resourceStore c') \<noteq> None"
    unfolding process_action_store(2) [OF assms(1)] using assms(2,3)
    by (cases action) (auto simp: benign_def wf_store_def parsed_or_def split: result.split)
  ultimately show ?thesis by (simp add: wf_store_def list_all_iff)
qed

text \<open>The controller as the program runs it: the converter is the one of \<open>internal/caddy\<close>.\<close>

locale caddy_controller = controller_world +
  fixes iter iter' :: "plugin PluginInfo list \<Rightarrow> plugin PluginInfo list"
  assumes converter: "EnvConvert env = ConvertToCaddyConfig iter iter' (cert_folder env)"
    and iter: "visits_all iter" and iter': "visits_all iter'"
begin

lemma convert_wf: "wf_store s \<Longrightarrow> EnvConvert env s \<noteq> Panic p"
  using convert_never_panics [OF iter iter', of s "cert_folder env"]
  by (auto simp: converter)

lemma run_actions_completes:
  assumes "wf_store (resourceStore c)" and "list_all benign actions"
  shows "\<exists>c' w'. run_actions env actions c w = (Ok (), c', w') \<and> wf_store (resourceStore c')"
  using assms
proof (induction actions arbitrary: c w)
  case (Cons action actions)
  obtain r c1 w1 where step: "process_action env action c w = (r, c1, w1)" by (metis prod_cases3)
  have wf: "wf_store (resourceStore c1)"
    using process_action_wf_store [OF step] Cons.prems by simp
  with process_action_panics [OF step] have "r = Ok True" by (auto simp: convert_wf)
  with step Cons.IH [OF wf] Cons.prems show ?case by simp
qed simp

end

section \<open>A controller in memory\<close>

text \<open>
  A world that keeps every law: Caddy, the files, the secrets and the ingresses of the cluster in
  memory. The encoder writes the number of routes.
\<close>

record ctl_world =
  MemLoaded :: "bytes option"
  MemFiles :: "string \<rightharpoonup> bytes"
  MemSecrets :: "Secret list"
  MemIngresses :: "Ingress list"

definition mem_ingress_client :: "ctl_world IngressClient" where
  "mem_ingress_client =
     \<lparr>IngressGet = (\<lambda>ns n w.
        (case List.find (\<lambda>i. Namespace i = ns \<and> Name i = n) (MemIngresses w) of
           Some i \<Rightarrow> (Ok i, w) | None \<Rightarrow> (Err (APIStatus NotFound), w))),
      IngressUpdateStatus = (\<lambda>ns ing w.
        (Ok ing, w\<lparr>MemIngresses := map (\<lambda>i. if UID i = UID ing then ing else i) (MemIngresses w)\<rparr>))\<rparr>"

definition mem_controller :: "ctl_world ControllerEnv" where
  "mem_controller =
     \<lparr>EnvNewDecoder = (\<lambda>dc. Ok (\<lambda>data. if data = [] then Ok (DecodeResult dc) else Err (ErrorString ''unknown key''))),
      EnvParseDuration = (\<lambda>s. Err (ErrorString s)),
      EnvConvert = ConvertToCaddyConfig rev id ''/etc/caddy/certs'',
      EnvMarshal = (\<lambda>cfg. Ok (''routes:'' @ utoa (length (http_routes cfg)))),
      EnvLoad = (\<lambda>j w. (Ok (), w\<lparr>MemLoaded := Some j\<rparr>)),
      EnvStop = (\<lambda>w. (Ok (), w\<lparr>MemLoaded := None\<rparr>)),
      EnvRuntimeDir = [],
      EnvMkdirAll = (\<lambda>d w. (Ok (), w)),
      EnvWriteFile = (\<lambda>f b w. (Ok (), w\<lparr>MemFiles := (MemFiles w)(f \<mapsto> b)\<rparr>)),
      EnvRemove = (\<lambda>f w. if MemFiles w f = None then (Err ErrNotExist, w)
                         else (Ok (), w\<lparr>MemFiles := (MemFiles w)(f := None)\<rparr>)),
      EnvDataOrder = (\<lambda>w data. data),
      EnvSecretLister = (\<lambda>w ns n. List.find (\<lambda>s. Namespace s = ns \<and> Name s = n) (MemSecrets w)),
      EnvServices = (\<lambda>w ns. Ok []),
      EnvIngressClient = mem_ingress_client,
      EnvSchedule = (\<lambda>jobs. jobs),
      EnvWaitForCacheSync = (\<lambda>stop synced. if list_all id synced then Some True else if stop then Some False else None),
      EnvUntil = Not\<rparr>"

definition empty_world :: ctl_world where
  "empty_world = \<lparr>MemLoaded = None, MemFiles = Map.empty, MemSecrets = [], MemIngresses = []\<rparr>"

lemma cert_folder_mem: "cert_folder mem_controller = ''/etc/caddy/certs''"
  by (simp add: cert_folder_def GetCertFolder_def mem_controller_def)

interpretation mem_ctl: caddy_controller mem_controller MemLoaded MemFiles rev id
proof
  show "EnvConvert mem_controller = ConvertToCaddyConfig rev id (cert_folder mem_controller)"
    unfolding cert_folder_mem by (simp add: mem_controller_def)
qed (auto simp: mem_controller_def mem_ingress_client_def split: if_splits option.splits)

definition sample_controller :: "'q \<Rightarrow> 'q CaddyController" where
  "sample_controller queue =
     \<lparr>resourceStore = NewStore sample_options ''caddy-system'' None, syncQueue = queue,
      tlsInformer = False, lastAppliedConfig = []\<rparr>"

lemma sample_controller_new:
  "NewCaddyController get [] [] queue (sample_options\<lparr>ConfigMapName := ''caddy-system/cm''\<rparr>) =
     Ok ((sample_controller queue)\<lparr>resourceStore :=
       NewStore (sample_options\<lparr>ConfigMapName := ''caddy-system/cm''\<rparr>) ''caddy-system'' None\<rparr>, ''caddy-system'', ''cm'')"
  by (simp add: NewCaddyController_def GetPodDetails_def config_map_location_def SplitN2_def Contains_def
      sample_controller_def)

lemma wf_sample_controller:
  "wf_store (resourceStore (sample_controller queue))" "in_sync MemLoaded (sample_controller queue) empty_world"
  by (simp_all add: sample_controller_def wf_store_def NewStore_def in_sync_def empty_world_def)

definition sample_actions :: "Action list" where
  "sample_actions =
     [IngressAddedAction (sample_ingress Map.empty [] []),
      ConfigMapAddedAction \<lparr>Name = ''cm'', Namespace = ''caddy-system'', UID = [], Annotations = Map.empty, ConfigData = []\<rparr>,
      SyncStatusAction]"

lemma benign_sample_actions: "list_all benign sample_actions"
  by (simp add: sample_actions_def benign_def wf_ingress_def sample_ingress_def)

theorem actions_refine_map_witness:
  "\<exists>c location c' w'.
     NewCaddyController (\<lambda>ns n. None) [] [] () (sample_options\<lparr>ConfigMapName := ''caddy-system/cm''\<rparr>) = Ok (c, location) \<and>
     run_actions mem_controller sample_actions c empty_world = (Ok (), c', w') \<and>
     canonical (held_ingresses c') = canonical [''u1'' \<mapsto> sample_ingress Map.empty [] []]"
proof -
  let ?opts = "sample_options\<lparr>ConfigMapName := ''caddy-system/cm''\<rparr>"
  let ?c = "(sample_controller ())\<lparr>resourceStore := NewStore ?opts ''caddy-system'' None\<rparr>"
  have new: "NewCaddyController (\<lambda>ns n. None) [] [] () ?opts = Ok (?c, ''caddy-system'', ''cm'')"
    by (rule sample_controller_new)
  have "wf_store (resourceStore ?c)" by (simp add: wf_store_def NewStore_def)
  from mem_ctl.run_actions_completes [OF this benign_sample_actions] obtain c' w' where
    run: "run_actions mem_controller sample_actions ?c empty_world = (Ok (), c', w')" by blast
  have "concat (map ingress_changes sample_actions) = [Upsert (sample_ingress Map.empty [] [])]"
    by (simp add: sample_actions_def)
  with actions_refine_map [OF new run] new run show ?thesis
    by (auto simp: sample_ingress_def)
qed

text \<open>
  C7. Whatever the worker does, turns that fail included, Caddy runs the configuration that the
  controller remembers as the last one applied. A turn whose handler succeeds replaces it by the one
  encoded from the store, if the store converts, encodes and loads; a turn that fails in any of
  these leaves the last good configuration running.
\<close>

theorem last_good_config_runs:
  assumes "controller_world env loaded files" and "in_sync loaded c w"
    and "run_actions env before c w = (r1, c1, w1)"
    and "handle env action c1 w1 = (rh, ch, wh)"
    and "process_action env action c1 w1 = (r2, c2, w2)"
  shows "in_sync loaded c2 w2 \<and>
     loaded w2 = (if is_Ok rh then running_after env loaded ch wh else loaded w1)"
proof -
  have "in_sync loaded c1 w1"
    by (rule controller_world.run_actions_world [OF assms(1,3,2)])
  from controller_world.process_action_world [OF assms(1,5) this assms(4)] show ?thesis by blast
qed

theorem last_good_config_runs_witness:
  "\<exists>c1 w1 c2 w2.
     run_actions mem_controller sample_actions (sample_controller ()) empty_world = (Ok (), c1, w1) \<and>
     process_action mem_controller SyncStatusAction c1 w1 = (Ok True, c2, w2) \<and> in_sync MemLoaded c2 w2"
proof -
  from mem_ctl.run_actions_completes [OF wf_sample_controller(1) [of "()"] benign_sample_actions, of empty_world]
  obtain c1 w1 where
    run: "run_actions mem_controller sample_actions (sample_controller ()) empty_world = (Ok (), c1, w1)"
    and wf: "wf_store (resourceStore c1)" by blast
  obtain r c2 w2 where one: "process_action mem_controller SyncStatusAction c1 w1 = (r, c2, w2)"
    by (metis prod_cases3)
  obtain rh ch wh where h: "handle mem_controller SyncStatusAction c1 w1 = (rh, ch, wh)"
    by (metis prod_cases3)
  have "wf_store (resourceStore c2)"
    by (rule process_action_wf_store [OF one _ wf]) (simp add: benign_def)
  then have "r = Ok True"
    using mem_ctl.process_action_panics [OF one] by (auto simp: mem_ctl.convert_wf)
  with last_good_config_runs [OF mem_ctl.controller_world_axioms wf_sample_controller(2) run h one] run one
  show ?thesis by blast
qed

section \<open>When the worker crashes\<close>

text \<open>
  C8. As long as the config map is not deleted and the rules of every ingress have an \<open>http\<close> section
  with a type and a service for every path, the worker gets through any sequence of actions without
  a panic, whatever the plugin order and whatever fails around it, and the store stays convertible.
\<close>

theorem worker_never_panics:
  assumes "caddy_controller env loaded files iter iter'"
    and "wf_store (resourceStore c)" and "list_all benign actions"
  shows "\<exists>c' w'. run_actions env actions c w = (Ok (), c', w') \<and> wf_store (resourceStore c')"
  using assms by (rule caddy_controller.run_actions_completes)

theorem worker_never_panics_witness:
  "\<exists>c' w'. run_actions mem_controller sample_actions (sample_controller ()) empty_world = (Ok (), c', w') \<and>
     wf_store (resourceStore c')"
  by (rule worker_never_panics [OF mem_ctl.caddy_controller_axioms wf_sample_controller(1) benign_sample_actions])

text \<open>
  C34. With the default plugin order, the deletion of the config map ends the process: the handler
  sets the store's options to nil, and the reload that follows dereferences them.
\<close>

theorem configmap_deletion_crashes:
  assumes "caddy_controller env loaded files iter iter'"
    and "names_no_plugin (PluginsOrder (StoreOptions (resourceStore c)))"
  shows "process_action env (ConfigMapDeletedAction cm) c w = (Panic NilDereference, set_configmap None c, w)"
proof (rule process_action_crashes)
  show "handle env (ConfigMapDeletedAction cm) c w = (Ok (), set_configmap None c, w)"
    by (simp add: ConfigMapDeletedAction_handle_def)
  show "EnvConvert env (resourceStore (set_configmap None c)) = Panic NilDereference"
    unfolding caddy_controller.converter [OF assms(1)]
    by (rule convert_nil_configmap_panics
        [OF caddy_controller.iter [OF assms(1)] caddy_controller.iter' [OF assms(1)]])
      (simp_all add: set_configmap_def assms(2))
qed

theorem configmap_deletion_crashes_witness:
  "fst (process_action mem_controller (ConfigMapDeletedAction
       \<lparr>Name = ''cm'', Namespace = ''caddy-system'', UID = [], Annotations = Map.empty, ConfigData = []\<rparr>)
     (sample_controller ()) empty_world) = Panic NilDereference"
proof -
  have "names_no_plugin (PluginsOrder (StoreOptions (resourceStore (sample_controller ()))))"
    by (simp add: sample_controller_def NewStore_def sample_options_def names_no_plugin_flags)
  from configmap_deletion_crashes [OF mem_ctl.caddy_controller_axioms this] show ?thesis by simp
qed

section \<open>Draining the queue\<close>

text \<open>
  The contract of the work queue, as far as the controller uses it: actions come out in the order
  they went in; an action is added at the end, or not at all if the same one already waits (the queue compares pointers,
  so of two equal actions both may be added); and a queue that has been shut down gives out what it holds and then
  tells the worker to quit. On an open empty queue \<open>Get\<close> waits; nothing is assumed of it.
\<close>

locale work_queue =
  fixes q :: "'q QueueOps"
    and pending :: "'q \<Rightarrow> Action list"
    and closed :: "'q \<Rightarrow> bool"
  assumes get_next: "pending s = action # actions \<Longrightarrow>
      \<exists>s'. QGet q s = (Some action, s') \<and> pending s' = actions \<and> closed s' = closed s"
    and get_closed: "pending s = [] \<Longrightarrow> closed s \<Longrightarrow> fst (QGet q s) = None"
    and finish: "QGet q s = (Some action, s') \<Longrightarrow>
      pending (QDone q action s') = pending s' \<and> closed (QDone q action s') = closed s'"
    and add: "\<not> closed s \<Longrightarrow> \<not> closed (QAdd q action s)"
      "\<not> closed s \<Longrightarrow> pending (QAdd q action s) = pending s @ [action] \<or>
         action \<in> set (pending s) \<and> pending (QAdd q action s) = pending s"

definition with_queue :: "'q \<Rightarrow> unit result \<times> 'q CaddyController \<times> 'w \<Rightarrow> unit result \<times> 'q CaddyController \<times> 'w" where
  "with_queue s out = (case out of (r, c, w) \<Rightarrow> (r, c\<lparr>syncQueue := s\<rparr>, w))"

lemma watchTLSSecrets_queue:
  "watchTLSSecrets env (c\<lparr>syncQueue := s\<rparr>) w = (case watchTLSSecrets env c w of (r, c', w') \<Rightarrow> (r, c'\<lparr>syncQueue := s\<rparr>, w'))"
  by (auto simp: watchTLSSecrets_def Let_def split: prod.split result.split)

lemma watch_after_AddIngress_queue:
  "watchTLSSecrets env (c\<lparr>syncQueue := s, resourceStore := AddIngress ing (resourceStore c)\<rparr>) w =
     (case watchTLSSecrets env (c\<lparr>resourceStore := AddIngress ing (resourceStore c)\<rparr>) w of
        (r, c', w') \<Rightarrow> (r, c'\<lparr>syncQueue := s\<rparr>, w'))"
proof -
  have swap: "c\<lparr>syncQueue := s, resourceStore := st\<rparr> = c\<lparr>resourceStore := st, syncQueue := s\<rparr>" for st
    by (cases c) simp
  show ?thesis unfolding swap by (rule watchTLSSecrets_queue)
qed

lemma handle_queue:
  "handle env action (c\<lparr>syncQueue := s\<rparr>) w = (case handle env action c w of (r, c', w') \<Rightarrow> (r, c'\<lparr>syncQueue := s\<rparr>, w'))"
  by (cases action)
    (auto simp: action_defs watch_after_AddIngress_queue split: prod.split result.split)

lemma reloadCaddy_queue:
  "reloadCaddy env (c\<lparr>syncQueue := s\<rparr>) w = (case reloadCaddy env c w of (r, c', w') \<Rightarrow> (r, c'\<lparr>syncQueue := s\<rparr>, w'))"
  by (auto simp: reloadCaddy_def split: prod.split result.split)

lemma process_action_queue:
  "process_action env action (c\<lparr>syncQueue := s\<rparr>) w =
     (case process_action env action c w of (r, c', w') \<Rightarrow> (r, c'\<lparr>syncQueue := s\<rparr>, w'))"
  by (auto simp: process_action_def handle_queue reloadCaddy_queue split: prod.split result.split)

lemma run_actions_queue:
  "run_actions env actions (c\<lparr>syncQueue := s\<rparr>) w = with_queue s (run_actions env actions c w)"
  by (induction actions arbitrary: c w)
    (auto simp: process_action_queue with_queue_def split: prod.split result.split)

lemma process_action_value: "process_action env action c w = (r, c', w') \<Longrightarrow> r = Ok True \<or> (\<exists>p. r = Panic p)"
  by (auto simp: process_action_def split: prod.splits result.splits)

context work_queue
begin

lemma processNextItem_pending:
  assumes "pending (syncQueue c) = action # actions" and "process_action env action c w = (r, c1, w1)"
  shows "\<exists>s. processNextItem q env c w = (r, c1\<lparr>syncQueue := s\<rparr>, w1) \<and>
     pending s = actions \<and> closed s = closed (syncQueue c)"
proof -
  from get_next [OF assms(1)] obtain s1 where s1: "QGet q (syncQueue c) = (Some action, s1)"
    "pending s1 = actions" "closed s1 = closed (syncQueue c)" by blast
  with finish [OF s1(1)] assms(2) show ?thesis
    by (intro exI [of _ "QDone q action s1"]) (simp add: processNextItem_def process_action_queue)
qed

lemma runWorker_run_actions:
  assumes "closed (syncQueue c)"
  shows "\<exists>s. runWorker q env c w = Some (with_queue s (run_actions env (pending (syncQueue c)) c w))"
  using assms
proof (induction "pending (syncQueue c)" arbitrary: c w)
  case Nil
  then have "fst (QGet q (syncQueue c)) = None" using get_closed by simp
  then obtain s where "QGet q (syncQueue c) = (None, s)" by (metis prod.collapse)
  with Nil show ?case
    by (subst runWorker.simps) (auto simp: processNextItem_def with_queue_def)
next
  case (Cons action actions)
  obtain r c1 w1 where step: "process_action env action c w = (r, c1, w1)" by (metis prod_cases3)
  from processNextItem_pending [OF Cons.hyps(2) [symmetric] step] obtain s where
    next_item: "processNextItem q env c w = (r, c1\<lparr>syncQueue := s\<rparr>, w1)" "pending s = actions" "closed s"
    using Cons.prems by auto
  from process_action_value [OF step] show ?case
  proof
    assume r: "r = Ok True"
    with next_item have "runWorker q env c w = runWorker q env (c1\<lparr>syncQueue := s\<rparr>) w1"
      by (subst runWorker.simps) simp
    moreover obtain s' where "runWorker q env (c1\<lparr>syncQueue := s\<rparr>) w1 =
        Some (with_queue s' (run_actions env actions (c1\<lparr>syncQueue := s\<rparr>) w1))"
      using Cons.hyps(1) [of "c1\<lparr>syncQueue := s\<rparr>" w1] next_item by auto
    ultimately show ?case
      using step r Cons.hyps(2) [symmetric]
      by (auto simp: run_actions_queue with_queue_def split: prod.split)
  next
    assume "\<exists>p. r = Panic p"
    then obtain p where "r = Panic p" ..
    with next_item step Cons.hyps(2) [symmetric] show ?case
      by (subst runWorker.simps) (auto simp: with_queue_def)
  qed
qed

end

text \<open>A queue in memory: the waiting actions in order, and whether it has been shut down.\<close>

definition list_queue :: "(Action list \<times> bool) QueueOps" where
  "list_queue =
     \<lparr>QAdd = (\<lambda>action (actions, down).
        if down \<or> action \<in> set actions then (actions, down) else (actions @ [action], down)),
      QGet = (\<lambda>(actions, down). case actions of
        [] \<Rightarrow> (None, [], down) | action # rest \<Rightarrow> (Some action, rest, down)),
      QDone = (\<lambda>action s. s)\<rparr>"

interpretation mem_queue: work_queue list_queue fst snd
  by unfold_locales (auto simp: list_queue_def split: list.splits prod.splits if_splits)

text \<open>
  Once the queue has been shut down, \<open>runWorker\<close> returns: it takes every action that waits, in
  order, up to the first panic, and leaves what processing them one after the other leaves.
\<close>

lemma runWorker_drains:
  assumes "work_queue q pending closed" and "closed (syncQueue c)"
    and "run_actions env (pending (syncQueue c)) c w = (r, c', w')"
  shows "\<exists>s. runWorker q env c w = Some (r, c'\<lparr>syncQueue := s\<rparr>, w')"
  using work_queue.runWorker_run_actions [OF assms(1,2), of env w] assms(3) by (simp add: with_queue_def)

lemma runWorker_drains_example:
  "\<exists>s c' w'. runWorker list_queue mem_controller (sample_controller (sample_actions, True)) empty_world =
     Some (Ok (), c'\<lparr>syncQueue := s\<rparr>, w') \<and> wf_store (resourceStore c')"
proof -
  let ?c = "sample_controller (sample_actions, True)"
  from mem_ctl.run_actions_completes [OF wf_sample_controller(1) benign_sample_actions] obtain c' w' where
    run: "run_actions mem_controller (fst (syncQueue ?c)) ?c empty_world = (Ok (), c', w')" and "wf_store (resourceStore c')"
    by (metis CaddyController.select_convs(2) fst_conv sample_controller_def)
  have "snd (syncQueue ?c)" by (simp add: sample_controller_def)
  from runWorker_drains [OF mem_queue.work_queue_axioms this run] \<open>wf_store (resourceStore c')\<close>
  show ?thesis by blast
qed

section \<open>Certificates on disk\<close>

text \<open>
  A file holds a secret if it is the values of its data, one after the other in some order: Go ranges over a map, and
  in another order each time. What writing a list of secrets leaves: at each path the last of them that has it.
\<close>

definition holds_secret :: "Secret \<Rightarrow> bytes \<Rightarrow> bool" where
  "holds_secret s content \<longleftrightarrow> (\<exists>data. mset data = mset (SecretData s) \<and> content = concat (map snd data))"

definition files_written ::
  "'w ControllerEnv \<Rightarrow> Secret list \<Rightarrow> (string \<rightharpoonup> bytes) \<Rightarrow> (string \<rightharpoonup> bytes) \<Rightarrow> bool" where
  "files_written env ss m m' \<longleftrightarrow>
     (\<forall>path. let found = filter (\<lambda>s. secret_file env s = path) ss
       in if found = [] then m' path = m path
          else \<exists>content. m' path = Some content \<and> holds_secret (last found) content)"

context controller_world
begin

lemma write_files_written:
  assumes "\<And>v data. mset (EnvDataOrder env v data) = mset data"
  shows "write_files env ss w = (Ok u, w') \<Longrightarrow> files_written env ss (files w) (files w')"
proof (induction ss arbitrary: w)
  case Nil
  then show ?case by (simp add: files_written_def)
next
  case (Cons s ss)
  obtain r1 w1 where one: "writeFile env s w = (r1, w1)" by (meson surj_pair)
  with Cons.prems have rest: "write_files env ss w1 = (Ok u, w')" and "is_Ok r1" by (cases r1; simp)+
  with one obtain content where "files w1 = (files w)(secret_file env s \<mapsto> content)" and "holds_secret s content"
    using assms by (auto simp: writeFile_def Let_def holds_secret_def dest: write_file)
  with Cons.IH [OF rest] show ?case by (auto simp: files_written_def Let_def split: if_splits)
qed

end

text \<open>
  C30. The first ingress with a TLS section starts the watch on secrets, and the secrets that the lister has at that
  moment, of those the stored ingresses name, are written to their files, the last one where several have the same
  file; no other file changes. The lister reads the cache of the informer that was just started, which may have
  nothing yet: secrets it does not have are passed over, and with an empty cache nothing is written. An ingress that
  comes when the watch already runs writes nothing: its secret is not on disk until an event of the secret itself
  arrives.
\<close>

theorem tls_secrets_written:
  assumes "controller_world env loaded files" and "\<And>v data. mset (EnvDataOrder env v data) = mset data"
    and "handle env (IngressAddedAction ing) c w = (Ok u, c', w')"
  shows "resourceStore c' = AddIngress ing (resourceStore c) \<and>
    (if tlsInformer c then tlsInformer c' \<and> w' = w
     else if HasManagedTLS (resourceStore c')
     then tlsInformer c' \<and>
       (\<exists>w1. EnvMkdirAll env (cert_folder env) w \<in> {(Ok (), w1), (Err ErrExist, w1)} \<and>
          files_written env (ListTLSSecrets (EnvSecretLister env w1) (Ingresses (resourceStore c'))) (files w) (files w') \<and>
          (EnvSecretLister env w1 = (\<lambda>ns n. None) \<longrightarrow> files w' = files w))
     else \<not> tlsInformer c' \<and> w' = w)"
proof -
  let ?c1 = "c\<lparr>resourceStore := AddIngress ing (resourceStore c)\<rparr>"
  have run: "watchTLSSecrets env ?c1 w = (Ok u, c', w')" using assms(3) by (simp add: IngressAddedAction_handle_def)
  obtain made w1 where made: "EnvMkdirAll env (cert_folder env) w = (made, w1)" by (meson surj_pair)
  let ?ss = "ListTLSSecrets (EnvSecretLister env w1) (Ingresses (resourceStore ?c1))"
  obtain r2 w2 where written: "write_files env ?ss w1 = (r2, w2)" by (meson surj_pair)
  have w1: "files w1 = files w" using controller_world.mkdir [OF assms(1) made] by blast
  have "files_written env ?ss (files w) (files w2)" if "r2 = Ok v" for v
    using controller_world.write_files_written [OF assms(1,2), of ?ss w1 v w2] written that w1 by simp
  moreover have "?ss = []" if "EnvSecretLister env w1 = (\<lambda>ns n. None)"
    using that by (simp add: ListTLSSecrets_def List.map_filter_def)
  ultimately show ?thesis
    using run made written w1
    by (auto simp: watchTLSSecrets_def Let_def split: if_splits result.splits)
qed

lemma mem_files:
  "EnvMkdirAll mem_controller d w = (Ok (), w)"
  "EnvWriteFile mem_controller f b w = (Ok (), w\<lparr>MemFiles := (MemFiles w)(f \<mapsto> b)\<rparr>)"
  by (simp_all add: mem_controller_def)

theorem tls_secrets_written_witness:
  "\<exists>c' w'. handle mem_controller (IngressAddedAction
       (sample_ingress Map.empty [\<lparr>Hosts = [''h''], SecretName = ''cert''\<rparr>] [])) (sample_controller ())
       (empty_world\<lparr>MemSecrets := [sample_secret ''default'' ''cert'' ''x'']\<rparr>) = (Ok (), c', w') \<and>
     MemFiles w' ''/etc/caddy/certs/cert.pem'' = Some ''x''"
proof -
  let ?ing = "sample_ingress Map.empty [\<lparr>Hosts = [''h''], SecretName = ''cert''\<rparr>] []"
  let ?w = "empty_world\<lparr>MemSecrets := [sample_secret ''default'' ''cert'' ''x'']\<rparr>"
  obtain r c' w' where run: "handle mem_controller (IngressAddedAction ?ing) (sample_controller ()) ?w = (r, c', w')"
    by (metis prod_cases3)
  have tls: "HasManagedTLS (AddIngress ?ing (resourceStore (sample_controller ())))"
    and ings: "Ingresses (AddIngress ?ing (resourceStore (sample_controller ()))) = [?ing]"
    by (simp_all add: HasManagedTLS_def Ingresses_AddIngress sample_controller_def NewStore_def sample_ingress_def)
  have listed: "ListTLSSecrets (EnvSecretLister mem_controller ?w) [?ing] = [sample_secret ''default'' ''cert'' ''x'']"
    by (simp add: ListTLSSecrets_def mem_controller_def sample_ingress_def sample_secret_def List.map_filter_simps)
  have ok: "r = Ok ()"
    using run tls ings listed
    by (auto simp: IngressAddedAction_handle_def watchTLSSecrets_def mem_files writeFile_def Let_def
        sample_controller_def split: if_splits)
  have path: "secret_file mem_controller (sample_secret ''default'' ''cert'' ''x'') = ''/etc/caddy/certs/cert.pem''"
    unfolding secret_file_def cert_folder_mem by (simp add: sample_secret_def, code_simp)
  have "mset (EnvDataOrder mem_controller v data) = mset data" for v data by (simp add: mem_controller_def)
  from tls_secrets_written [OF mem_ctl.controller_world_axioms this run [unfolded ok]] tls ings listed
  have "files_written mem_controller [sample_secret ''default'' ''cert'' ''x''] (MemFiles ?w) (MemFiles w')"
    by (auto simp: mem_files sample_controller_def)
  with path have "\<exists>content. MemFiles w' ''/etc/caddy/certs/cert.pem'' = Some content \<and>
      holds_secret (sample_secret ''default'' ''cert'' ''x'') content"
    by (auto simp: files_written_def Let_def dest!: spec [of _ "''/etc/caddy/certs/cert.pem''"])
  then show ?thesis
    using run ok by (auto simp: holds_secret_def sample_secret_def)
qed

section \<open>The end of the process\<close>

text \<open>
  The end of \<open>Run\<close>: every ingress whose status is not a single empty entry is given such an entry,
  then Caddy is stopped; when that succeeds the locks are released and the process exits with 0,
  otherwise the locks are left and it exits with 1.
\<close>

lemma Run_exit_result:
  "Run_exit env CleanUpOwnLocks c w =
    (let blank = [\<lparr>IP = [], Hostname = []\<rparr>];
         jobs = map (\<lambda>ing. (sort_status ing, blank))
           (filter (\<lambda>ing. LoadBalancerIngress ing \<noteq> blank) (Ingresses (resourceStore c)));
         w1 = fold (runUpdate (EnvIngressClient env)) (EnvSchedule env jobs) w
     in case EnvStop env w1 of
          (Ok _, w2) \<Rightarrow> (Ok 0, CleanUpOwnLocks w2)
        | (Err e, w2) \<Rightarrow> (Ok 1, w2)
        | (Panic p, w2) \<Rightarrow> (Panic p, w2))"
proof -
  let ?blank = "[\<lparr>IP = [], Hostname = []\<rparr>]"
  have one: "slice_stable lessLoadBalancerIngress ?blank = ?blank" by simp
  have eq: "LoadBalancerIngress (sort_status ing) = ?blank \<longleftrightarrow> LoadBalancerIngress ing = ?blank" for ing
    using sorted_lb_eq_iff [of "LoadBalancerIngress ing" ?blank] by (simp add: sort_status_def)
  have "status_updates ?blank ings =
      map (\<lambda>ing. (sort_status ing, ?blank)) (filter (\<lambda>ing. LoadBalancerIngress ing \<noteq> ?blank) ings)" for ings
    by (simp add: status_updates_def one ingressSliceEqual_iff eq filter_map comp_def Let_def del: slice_stable.simps)
  then show ?thesis
    by (simp add: Run_exit_def Shutdown_def updateIngStatuses_def Let_def split: prod.split result.split)
qed

end
