(* ===== verification/Event_System.thy ===== *)
theory Event_System
  imports Worker
begin

text \<open>
  The controller among the events of its ingresses. The specification is the set of ingresses that the cluster
  holds according to the events so far (\<open>cluster_event\<close>). Every event counts: additions, updates, updates that replace
  an ingress by another of the same name, deletions, and tombstones for deletions the informer has missed.

  Not every event leads to an action. \<open>stale_after\<close> keeps the UIDs of which the controller has missed the last change: an
  update out of the controller's class, a tombstone, a replaced ingress, or an action that the queue takes for one
  that waits although a later one on the same ingress waits too. A UID leaves the set when an action on it is
  queued. The invariant \<open>ctl_inv\<close> is about all other UIDs.
\<close>

section \<open>The ingresses of the cluster\<close>

text \<open>The key by which a tombstone names its object, \<open>cache.MetaNamespaceKeyFunc\<close>.\<close>

definition object_key :: "Ingress \<Rightarrow> string" where
  "object_key ing = (if Namespace ing = [] then Name ing else Namespace ing @ ''/'' @ Name ing)"

fun cluster_event :: "event \<Rightarrow> (string \<rightharpoonup> Ingress) \<Rightarrow> (string \<rightharpoonup> Ingress)" where
  "cluster_event (AddEvent (IngressObject ing)) m = m(UID ing \<mapsto> ing)"
| "cluster_event (UpdateEvent (IngressObject old) (IngressObject new)) m = m(UID old := None, UID new \<mapsto> new)"
| "cluster_event (DeleteEvent (IngressObject ing)) m = m(UID ing := None)"
| "cluster_event (DeleteEvent (DeletedFinalStateUnknown key)) m =
     (\<lambda>uid. case m uid of None \<Rightarrow> None | Some ing \<Rightarrow> if object_key ing = key then None else Some ing)"
| "cluster_event _ m = m"

text \<open>The ingresses of the controller's class.\<close>

definition controlled :: "IngressParams \<Rightarrow> (string \<rightharpoonup> Ingress) \<Rightarrow> (string \<rightharpoonup> Ingress)" where
  "controlled p m = (\<lambda>uid. case m uid of None \<Rightarrow> None | Some ing \<Rightarrow> if isControllerIngress p ing then Some ing else None)"

definition watch_params :: "Options \<Rightarrow> IngressParams" where
  "watch_params opts = \<lparr>ParamsClassName = ClassName opts, ParamsClassNameRequired = ClassNameRequired opts\<rparr>"

text \<open>The actions an ingress event queues.\<close>

fun event_actions :: "IngressParams \<Rightarrow> event \<Rightarrow> Action list" where
  "event_actions p (AddEvent (IngressObject ing)) =
     (if isControllerIngress p ing then [IngressAddedAction ing] else [])"
| "event_actions p (UpdateEvent (IngressObject old) (IngressObject new)) =
     (if isControllerIngress p new then [IngressUpdatedAction new old] else [])"
| "event_actions p (DeleteEvent (IngressObject ing)) =
     (if isControllerIngress p ing then [IngressDeletedAction ing] else [])"
| "event_actions p _ = []"

lemma ingress_events_queue:
  "ingress_events q opts e c = fold (enqueue q) (event_actions (watch_params opts) e) c"
  by (cases "(watch_params opts, e)" rule: event_actions.cases)
    (auto simp: ingress_events_def WatchIngresses_def watch_params_def onIngressAdded_def onIngressUpdated_def
      onIngressDeleted_def split: option.split)

section \<open>Changes of one ingress\<close>

fun change_uid :: "Ingress change \<Rightarrow> string" where
  "change_uid (Upsert ing) = UID ing"
| "change_uid (Remove ing) = UID ing"

fun change_value :: "Ingress change \<Rightarrow> Ingress option" where
  "change_value (Upsert ing) = Some ing"
| "change_value (Remove ing) = None"

definition last_change :: "string \<Rightarrow> Ingress change list \<Rightarrow> Ingress change option" where
  "last_change uid chs = List.find (\<lambda>ch. change_uid ch = uid) (rev chs)"

lemma store_change_at: "store_change UID ch m uid = (if change_uid ch = uid then change_value ch else m uid)"
  by (cases ch) auto

lemma last_change_append:
  "last_change uid (chs @ [ch]) = (if change_uid ch = uid then Some ch else last_change uid chs)"
  by (simp add: last_change_def)

lemma fold_store_change_at:
  "fold (store_change UID) chs m uid = (case last_change uid chs of None \<Rightarrow> m uid | Some ch \<Rightarrow> change_value ch)"
proof (induction chs rule: rev_induct)
  case Nil
  then show ?case by (simp add: last_change_def)
next
  case (snoc ch chs)
  then show ?case by (simp add: store_change_at last_change_append)
qed

text \<open>An event has no action, or one, and this action makes the change that the event reports.\<close>

lemma event_change:
  assumes "event_actions p e \<noteq> []"
  obtains action ch where "event_actions p e = [action]" and "ingress_changes action = [ch]"
    and "\<And>m. controlled p (cluster_event e m) (change_uid ch) = change_value ch"
  using assms by (cases "(p, e)" rule: event_actions.cases) (auto simp: controlled_def split: if_splits)

lemma cluster_event_keys:
  assumes "\<forall>uid ing. m uid = Some ing \<longrightarrow> UID ing = uid"
  shows "\<forall>uid ing. cluster_event e m uid = Some ing \<longrightarrow> UID ing = uid"
  using assms by (cases "(e, m)" rule: cluster_event.cases) (auto split: option.splits if_splits)

text \<open>Events of config maps and secrets, and the timer, queue at most one action; none touches an ingress.\<close>

lemma configmap_events_queue:
  "configmap_events q location e c = c \<or>
   (\<exists>action. ingress_changes action = [] \<and> configmap_events q location e c = enqueue q action c)"
  by (cases e) (auto simp: configmap_events_def WatchConfigMaps_def onConfigMapAdded_def onConfigMapUpdated_def
      onConfigMapDeleted_def split: option.split intro!: exI)

lemma secret_events_queue:
  "secret_events q e c = c \<or>
   (\<exists>action. ingress_changes action = [] \<and> secret_events q e c = enqueue q action c)"
  by (cases e) (auto simp: secret_events_def WatchTLSSecrets_def onSecretAdded_def onSecretUpdated_def
      onSecretDeleted_def split: option.split intro!: exI)

section \<open>What the controller misses\<close>

definition waiting_changes :: "('q \<Rightarrow> Action list) \<Rightarrow> 'q CaddyController \<Rightarrow> Ingress change list" where
  "waiting_changes pending c = concat (map ingress_changes (pending (syncQueue c)))"

text \<open>
  An event reaches the controller's view of an ingress if its action is put on the queue, or the change of the
  action is already the last one that waits for this ingress.
\<close>

definition reaches :: "'q QueueOps \<Rightarrow> ('q \<Rightarrow> Action list) \<Rightarrow> IngressParams \<Rightarrow> event \<Rightarrow> 'q CaddyController \<Rightarrow> string \<Rightarrow> bool" where
  "reaches q pending p e c uid \<longleftrightarrow>
     (\<exists>action \<in> set (event_actions p e). \<exists>ch \<in> set (ingress_changes action). change_uid ch = uid \<and>
        (pending (QAdd q action (syncQueue c)) = pending (syncQueue c) @ [action] \<or>
         last_change uid (waiting_changes pending c) = Some ch))"

definition stale_after ::
  "'q QueueOps \<Rightarrow> ('q \<Rightarrow> Action list) \<Rightarrow> IngressParams \<Rightarrow> event \<Rightarrow> 'q CaddyController \<Rightarrow> (string \<rightharpoonup> Ingress) \<Rightarrow> string set \<Rightarrow> string set" where
  "stale_after q pending p e c m stale =
     (stale \<union> {uid. controlled p (cluster_event e m) uid \<noteq> controlled p m uid}) - {uid. reaches q pending p e c uid}"

text \<open>
  The events that make nothing stale, when the queue takes their action: an addition of an ingress, an update of one
  that keeps its UID and is not taken out of the class, and a deletion, reported with the ingress itself, that does
  not take it out of the class either.
\<close>

fun plain_event :: "IngressParams \<Rightarrow> (string \<rightharpoonup> Ingress) \<Rightarrow> event \<Rightarrow> bool" where
  "plain_event p m (AddEvent (IngressObject ing)) \<longleftrightarrow> m (UID ing) = None"
| "plain_event p m (UpdateEvent (IngressObject old) (IngressObject new)) \<longleftrightarrow>
     UID old = UID new \<and> m (UID new) = Some old \<and> (isControllerIngress p old \<longrightarrow> isControllerIngress p new)"
| "plain_event p m (DeleteEvent (IngressObject ing)) \<longleftrightarrow>
     (case m (UID ing) of None \<Rightarrow> False | Some old \<Rightarrow> isControllerIngress p old \<longrightarrow> isControllerIngress p ing)"
| "plain_event p m _ \<longleftrightarrow> False"

lemma plain_event_not_stale:
  assumes "plain_event p m e"
    and "\<And>action. action \<in> set (event_actions p e) \<Longrightarrow>
      pending (QAdd q action (syncQueue c)) = pending (syncQueue c) @ [action]"
  shows "stale_after q pending p e c m stale \<subseteq> stale"
  using assms by (cases "(p, m, e)" rule: plain_event.cases)
    (auto simp: stale_after_def reaches_def controlled_def split: if_splits option.splits)

section \<open>The invariant\<close>

text \<open>
  On every UID that is not stale, the store with the changes that still wait applied to it is the controller's part
  of the cluster.
\<close>

definition ctl_inv ::
  "('q \<Rightarrow> Action list) \<Rightarrow> ('q \<Rightarrow> bool) \<Rightarrow> Options \<Rightarrow> 'q CaddyController \<Rightarrow> (string \<rightharpoonup> Ingress) \<Rightarrow> string set \<Rightarrow> bool" where
  "ctl_inv pending closed opts c m stale \<longleftrightarrow>
     \<not> closed (syncQueue c) \<and> uid_distinct (resourceStore c) \<and> (\<forall>uid ing. m uid = Some ing \<longrightarrow> UID ing = uid) \<and>
     (\<forall>uid. uid \<notin> stale \<longrightarrow>
        canonical (fold (store_change UID) (waiting_changes pending c) (held_ingresses c)) uid =
          canonical (controlled (watch_params opts) m) uid)"

lemma ctl_invD:
  assumes "ctl_inv pending closed opts c m stale"
  shows "\<not> closed (syncQueue c)" and "uid_distinct (resourceStore c)" and "\<forall>uid ing. m uid = Some ing \<longrightarrow> UID ing = uid"
    and "uid \<notin> stale \<Longrightarrow> canonical (fold (store_change UID) (waiting_changes pending c) (held_ingresses c)) uid =
      canonical (controlled (watch_params opts) m) uid"
  using assms by (auto simp: ctl_inv_def)

lemma held_enqueue [simp]:
  "held_ingresses (enqueue q action c) = held_ingresses c"
  "resourceStore (enqueue q action c) = resourceStore c"
  by (simp_all add: held_ingresses_def enqueue_def)

text \<open>A change of the controller that keeps the queue and the view of the ingresses.\<close>

lemma ctl_inv_same_view:
  assumes "ctl_inv pending closed opts c m stale" and "syncQueue c' = syncQueue c"
    and "canonical (held_ingresses c') = canonical (held_ingresses c)" and "uid_distinct (resourceStore c')"
  shows "ctl_inv pending closed opts c' m stale"
proof -
  have "waiting_changes pending c' = waiting_changes pending c" using assms(2) by (simp add: waiting_changes_def)
  with assms canonical_fold_store_change [OF assms(3)] show ?thesis by (simp add: ctl_inv_def)
qed

context work_queue
begin

lemma enqueue_queue:
  assumes "\<not> closed (syncQueue c)"
  shows "\<not> closed (syncQueue (enqueue q action c))"
    and "pending (syncQueue (enqueue q action c)) = pending (syncQueue c) @ [action] \<or>
      action \<in> set (pending (syncQueue c)) \<and> pending (syncQueue (enqueue q action c)) = pending (syncQueue c)"
  using add [OF assms] by (simp_all add: enqueue_def)

lemma waiting_enqueue:
  assumes "\<not> closed (syncQueue c)"
  shows "waiting_changes pending (enqueue q action c) \<in>
    {waiting_changes pending c @ ingress_changes action, waiting_changes pending c}"
  using enqueue_queue(2) [OF assms, of action] by (auto simp: waiting_changes_def)

lemma inv_enqueue_other:
  assumes "ctl_inv pending closed opts c m stale" and "ingress_changes action = []"
  shows "ctl_inv pending closed opts (enqueue q action c) m stale"
proof -
  have "waiting_changes pending (enqueue q action c) = waiting_changes pending c"
    using waiting_enqueue [OF ctl_invD(1) [OF assms(1)], of action] assms(2) by simp
  with assms(1) enqueue_queue(1) [OF ctl_invD(1) [OF assms(1)]] show ?thesis by (simp add: ctl_inv_def)
qed

lemma event_view:
  assumes "\<not> closed (syncQueue c)" and "event_actions p e = [action]" and "ingress_changes action = [ch]"
    and "c' = enqueue q action c"
  shows "fold (store_change UID) (waiting_changes pending c') (held_ingresses c') uid =
    (if reaches q pending p e c uid then change_value ch
     else fold (store_change UID) (waiting_changes pending c) (held_ingresses c) uid)"
proof -
  let ?appended = "pending (QAdd q action (syncQueue c)) = pending (syncQueue c) @ [action]"
  have reach: "reaches q pending p e c uid \<longleftrightarrow> change_uid ch = uid \<and>
      (?appended \<or> last_change uid (waiting_changes pending c) = Some ch)"
    using assms(2,3) by (auto simp: reaches_def)
  show ?thesis
  proof (cases ?appended)
    case True
    then have "waiting_changes pending c' = waiting_changes pending c @ [ch]"
      using assms(3,4) by (simp add: waiting_changes_def enqueue_def)
    with True reach assms(4) show ?thesis by (simp add: store_change_at)
  next
    case False
    then have "waiting_changes pending c' = waiting_changes pending c"
      using add(2) [OF assms(1), of action] assms(4) by (simp add: waiting_changes_def enqueue_def)
    with False reach assms(4) show ?thesis by (simp add: fold_store_change_at)
  qed
qed

lemma inv_event:
  assumes "ctl_inv pending closed opts c m stale"
  shows "ctl_inv pending closed opts (ingress_events q opts e c) (cluster_event e m)
    (stale_after q pending (watch_params opts) e c m stale)"
proof (cases "event_actions (watch_params opts) e = []")
  case True
  then have "ingress_events q opts e c = c" and "\<not> reaches q pending (watch_params opts) e c uid" for uid
    by (simp_all add: ingress_events_queue reaches_def)
  with assms cluster_event_keys [OF ctl_invD(3) [OF assms]] show ?thesis
    by (auto simp: ctl_inv_def stale_after_def canonical_def)
next
  case False
  then obtain action ch where one: "event_actions (watch_params opts) e = [action]" "ingress_changes action = [ch]"
    and val: "\<And>m. controlled (watch_params opts) (cluster_event e m) (change_uid ch) = change_value ch"
    by (rule event_change) blast
  let ?c' = "enqueue q action c"
  have c': "ingress_events q opts e c = ?c'" by (simp add: ingress_events_queue one)
  have "canonical (fold (store_change UID) (waiting_changes pending ?c') (held_ingresses ?c')) uid =
      canonical (controlled (watch_params opts) (cluster_event e m)) uid"
    if "uid \<notin> stale_after q pending (watch_params opts) e c m stale" for uid
  proof (cases "reaches q pending (watch_params opts) e c uid")
    case True
    then have "change_uid ch = uid" using one by (auto simp: reaches_def)
    with True event_view [OF ctl_invD(1) [OF assms] one refl] val show ?thesis by (auto simp: canonical_def)
  next
    case False
    with that have "uid \<notin> stale" "controlled (watch_params opts) (cluster_event e m) uid = controlled (watch_params opts) m uid"
      by (auto simp: stale_after_def)
    with False event_view [OF ctl_invD(1) [OF assms] one refl] ctl_invD(4) [OF assms, of uid] show ?thesis
      by (simp add: canonical_def)
  qed
  with assms enqueue_queue(1) [OF ctl_invD(1) [OF assms]] cluster_event_keys [OF ctl_invD(3) [OF assms], of e] c'
  show ?thesis by (simp add: ctl_inv_def)
qed

lemma inv_work:
  assumes "ctl_inv pending closed opts c m stale" and "pending (syncQueue c) = action # actions"
    and "process_action env action c w = (r, c1, w1)" and "pending s = actions" and "closed s = closed (syncQueue c)"
  shows "ctl_inv pending closed opts (c1\<lparr>syncQueue := s\<rparr>) m stale"
proof -
  note held = process_action_held [OF assms(3) ctl_invD(2) [OF assms(1)]]
  have "canonical (fold (store_change UID) (concat (map ingress_changes actions)) (held_ingresses c1)) =
      canonical (fold (store_change UID) (concat (map ingress_changes (action # actions))) (held_ingresses c))"
    using canonical_fold_store_change [OF held(2)] by simp
  then show ?thesis
    using assms held(1) by (simp add: ctl_inv_def waiting_changes_def held_ingresses_def)
qed

end

lemma inv_settled:
  assumes "ctl_inv pending closed opts c m stale" and "pending (syncQueue c) = []"
  shows "(\<forall>uid. uid \<notin> stale \<longrightarrow> canonical (held_ingresses c) uid = canonical (controlled (watch_params opts) m) uid) \<and>
    distinct (map UID (Ingresses (resourceStore c)))"
  using assms by (simp add: ctl_inv_def waiting_changes_def)

lemma inv_started:
  assumes "NewCaddyController get podName podNs queue opts = Ok (c, location)" and "pending queue = []" and "\<not> closed queue"
  shows "ctl_inv pending closed opts c Map.empty {}"
proof -
  from assms(1) obtain podInfo where "resourceStore c = NewStore opts (fst location) podInfo" "syncQueue c = queue"
    by (auto simp: NewCaddyController_def split: result.splits)
  with assms(2,3) show ?thesis
    by (auto simp: ctl_inv_def waiting_changes_def held_ingresses_def NewStore_def lookup_key_def controlled_def canonical_def)
qed

end
