(* ===== verification/Command.thy ===== *)
theory Command
  imports Worker Complex_Main
begin

text \<open>
  The command \<open>cmd/caddy\<close>: its flags, the connection to the API server, and the start of the
  controller. The package \<open>flag\<close> of the Go library is modelled as far as the command uses it: string
  and boolean flags, written with one dash or two, the value after an equals sign or as the next
  argument; a mistake ends the process. The clients of client-go and \<open>wait.ExponentialBackoff\<close>
  are parameters. What \<open>main\<close> does once the controller exists is in theory \<open>Lifecycle\<close>.
\<close>

section \<open>Flags\<close>

record Flags =
  namespaceFlag :: string
  classNameFlag :: string
  classNameRequiredFlag :: bool
  configMapNameFlag :: string
  leaseIDFlag :: string
  verboseFlag :: bool
  pluginsOrderFlag :: string

definition defaultFlags :: Flags where
  "defaultFlags =
     \<lparr>namespaceFlag = [], classNameFlag = ''caddy'', classNameRequiredFlag = False, configMapNameFlag = [],
      leaseIDFlag = [], verboseFlag = False, pluginsOrderFlag = []\<rparr>"

text \<open>\<open>strconv.ParseBool\<close>.\<close>

definition ParseBool :: "string \<Rightarrow> bool option" where
  "ParseBool s =
     (if s \<in> set [''1'', ''t'', ''T'', ''true'', ''TRUE'', ''True''] then Some True
      else if s \<in> set [''0'', ''f'', ''F'', ''false'', ''FALSE'', ''False''] then Some False
      else None)"

text \<open>The flags of the command: how a value is stored, \<open>None\<close> for a flag that is not defined.\<close>

datatype flag_kind =
    StringFlag "string \<Rightarrow> Flags \<Rightarrow> Flags"
  | BoolFlag "bool \<Rightarrow> Flags \<Rightarrow> Flags"

definition lookup_flag :: "string \<Rightarrow> flag_kind option" where
  "lookup_flag name =
     map_of [(''namespace'', StringFlag (\<lambda>v f. f\<lparr>namespaceFlag := v\<rparr>)),
             (''class-name'', StringFlag (\<lambda>v f. f\<lparr>classNameFlag := v\<rparr>)),
             (''class-name-required'', BoolFlag (\<lambda>v f. f\<lparr>classNameRequiredFlag := v\<rparr>)),
             (''config-map'', StringFlag (\<lambda>v f. f\<lparr>configMapNameFlag := v\<rparr>)),
             (''lease-id'', StringFlag (\<lambda>v f. f\<lparr>leaseIDFlag := v\<rparr>)),
             (''verbose'', BoolFlag (\<lambda>v f. f\<lparr>verboseFlag := v\<rparr>)),
             (''plugins-order'', StringFlag (\<lambda>v f. f\<lparr>pluginsOrderFlag := v\<rparr>))] name"

text \<open>
  An argument as the package reads it: not a flag, the terminator, a flag with a name and perhaps a
  value, or a syntax error.
\<close>

datatype flag_arg = NoFlag | Terminator | FlagArg string "string option" | BadSyntax

definition flag_body :: "string \<Rightarrow> flag_arg" where
  "flag_body body =
     (if body = [] \<or> hd body = CHR ''-'' \<or> hd body = CHR ''='' then BadSyntax
      else if Contains body CHR ''=''
      then FlagArg (takeWhile (\<lambda>c. c \<noteq> CHR ''='') body) (Some (tl (dropWhile (\<lambda>c. c \<noteq> CHR ''='') body)))
      else FlagArg body None)"

fun read_arg :: "string \<Rightarrow> flag_arg" where
  "read_arg (a # b # s) =
     (if a \<noteq> CHR ''-'' then NoFlag
      else if b = CHR ''-'' then (if s = [] then Terminator else flag_body s)
      else flag_body (b # s))"
| "read_arg _ = NoFlag"

definition flag_exit :: "string \<Rightarrow> 'a result" where
  "flag_exit msg = Panic (FatalExit msg)"

text \<open>\<open>flag.Parse\<close>: the arguments from left to right, up to the first that is not a flag.\<close>

function parse_args :: "string list \<Rightarrow> Flags \<Rightarrow> Flags result" where
  "parse_args [] f = Ok f"
| "parse_args (arg # args) f =
     (case read_arg arg of
        NoFlag \<Rightarrow> Ok f
      | Terminator \<Rightarrow> Ok f
      | BadSyntax \<Rightarrow> flag_exit ''bad flag syntax''
      | FlagArg name value \<Rightarrow>
          (case lookup_flag name of
             None \<Rightarrow>
               if name = ''help'' \<or> name = ''h'' then flag_exit ''help requested''
               else flag_exit ''flag provided but not defined''
           | Some (BoolFlag put) \<Rightarrow>
               (case value of
                  None \<Rightarrow> parse_args args (put True f)
                | Some v \<Rightarrow>
                    (case ParseBool v of
                       None \<Rightarrow> flag_exit ''invalid boolean value''
                     | Some b \<Rightarrow> parse_args args (put b f)))
           | Some (StringFlag put) \<Rightarrow>
               (case value of
                  Some v \<Rightarrow> parse_args args (put v f)
                | None \<Rightarrow>
                    (case args of
                       [] \<Rightarrow> flag_exit ''flag needs an argument''
                     | v # rest \<Rightarrow> parse_args rest (put v f)))))"
  by pat_completeness auto

termination
  by (relation "measure (\<lambda>(args, f). length args)") auto

definition parseFlags :: "string list \<Rightarrow> Options result" where
  "parseFlags args =
     bind_result (parse_args args defaultFlags) (\<lambda>f. Ok
       \<lparr>WatchNamespace = namespaceFlag f, ConfigMapName = configMapNameFlag f, ClassName = classNameFlag f,
        ClassNameRequired = classNameRequiredFlag f, Verbose = verboseFlag f, OptionsLeaseID = leaseIDFlag f,
        PluginsOrder = Split CHR '','' (pluginsOrderFlag f)\<rparr>)"

section \<open>The API server\<close>

text \<open>The fields of a \<open>rest.Config\<close> that the command sets.\<close>

record ClientConfig =
  QPS :: nat
  Burst :: nat
  ContentType :: string

record Backoff =
  Steps :: nat
  Duration :: int
  Factor :: rat
  Jitter :: rat

definition highQPS :: nat where
  "highQPS = 1000000"

definition highBurst :: nat where
  "highBurst = 1000000"

definition defaultRetry :: Backoff where
  "defaultRetry = \<lparr>Steps = 10, Duration = 1000000, Factor = 3 / 2, Jitter = 1 / 10\<rparr>"

text \<open>
  The variables the retried closure writes, with the world of the requests: the version, the number
  of retries and the last error.
\<close>

record ('v, 'w) attempt_state =
  Version :: "'v option"
  retries :: nat
  lastErr :: "error option"
  AttemptWorld :: 'w

definition discover_attempt ::
  "('w \<Rightarrow> (error + 'v) \<times> 'w) \<Rightarrow> ('v, 'w) attempt_state \<Rightarrow> bool \<times> ('v, 'w) attempt_state" where
  "discover_attempt ServerVersion st =
     (case ServerVersion (AttemptWorld st) of
        (Inr v, w) \<Rightarrow> (True, st\<lparr>Version := Some v, AttemptWorld := w\<rparr>)
      | (Inl e, w) \<Rightarrow>
          (False, st\<lparr>Version := None, lastErr := Some e, retries := retries st + 1, AttemptWorld := w\<rparr>))"

text \<open>
  \<open>buildConfig\<close> is \<open>clientcmd.BuildConfigFromFlags\<close>, \<open>newForConfig\<close> makes the client from the
  configuration, \<open>serverVersion\<close> is a client's request for the version, and \<open>backoff\<close> is
  \<open>wait.ExponentialBackoff\<close>, which returns an error when it gives up. The result is what Go returns: the
  client, the version and the error, each perhaps nil.
\<close>

type_synonym ('v, 'w) exponential_backoff =
  "Backoff \<Rightarrow> (('v, 'w) attempt_state \<Rightarrow> bool \<times> ('v, 'w) attempt_state) \<Rightarrow>
     ('v, 'w) attempt_state \<Rightarrow> error option \<times> ('v, 'w) attempt_state"

definition createApiserverClient ::
  "(string \<Rightarrow> error + ClientConfig) \<Rightarrow> (ClientConfig \<Rightarrow> error + 'k) \<Rightarrow>
   ('k \<Rightarrow> 'w \<Rightarrow> (error + 'v) \<times> 'w) \<Rightarrow> ('v, 'w) exponential_backoff \<Rightarrow>
   string \<Rightarrow> 'w \<Rightarrow> ('k option \<times> 'v option \<times> error option) \<times> 'w" where
  "createApiserverClient buildConfig newForConfig serverVersion backoff kubeconfig w =
     (case buildConfig kubeconfig of
        Inl e \<Rightarrow> ((None, None, Some e), w)
      | Inr cfg \<Rightarrow>
          (case newForConfig (cfg\<lparr>QPS := highQPS, Burst := highBurst,
                 ContentType := ''application/vnd.kubernetes.protobuf''\<rparr>) of
             Inl e \<Rightarrow> ((None, None, Some e), w)
           | Inr client \<Rightarrow>
               (let (err, st) = backoff defaultRetry (discover_attempt (serverVersion client))
                      \<lparr>Version = None, retries = 0, lastErr = None, AttemptWorld = w\<rparr>
                in if err \<noteq> None then ((None, None, lastErr st), AttemptWorld st)
                   else ((Some client, Version st, None), AttemptWorld st))))"

section \<open>The start of the program\<close>

definition NamespaceAll :: string where
  "NamespaceAll = []"

text \<open>
  \<open>main\<close> up to the start of the controller: the controller with the options it runs with. \<open>pods\<close> is the
  lookup of a pod through a client.
\<close>

definition main_start ::
  "string list \<Rightarrow> (string \<Rightarrow> error + ClientConfig) \<Rightarrow> (ClientConfig \<Rightarrow> error + 'k) \<Rightarrow>
   ('k \<Rightarrow> 'w \<Rightarrow> (error + 'v) \<times> 'w) \<Rightarrow> ('v, 'w) exponential_backoff \<Rightarrow>
   ('k option \<Rightarrow> string \<Rightarrow> string \<Rightarrow> Pod option) \<Rightarrow> string \<Rightarrow> string \<Rightarrow> string \<Rightarrow> 'q \<Rightarrow> 'w \<Rightarrow>
     ('q CaddyController \<times> string \<times> string) result" where
  "main_start args buildConfig newForConfig serverVersion backoff pods kubeconfig podName podNs queue w =
     bind_result (parseFlags args) (\<lambda>cfg0.
       let cfg = (if WatchNamespace cfg0 = [] then cfg0\<lparr>WatchNamespace := NamespaceAll\<rparr> else cfg0);
           ((client, version, err), w1) =
             createApiserverClient buildConfig newForConfig serverVersion backoff kubeconfig w
       in if err \<noteq> None
          then Panic (FatalExit ''Could not establish a connection to the Kubernetes API Server.'')
          else NewCaddyController (pods client) podName podNs queue cfg)"

section \<open>Reading the flags\<close>

definition bool_text :: "bool \<Rightarrow> string" where
  "bool_text b = (if b then ''true'' else ''false'')"

text \<open>The arguments that ask for given options.\<close>

definition flags_of :: "Options \<Rightarrow> string list" where
  "flags_of opts =
     [''-namespace='' @ WatchNamespace opts, ''-class-name'', ClassName opts,
      ''--class-name-required='' @ bool_text (ClassNameRequired opts), ''-config-map='' @ ConfigMapName opts,
      ''--lease-id='' @ OptionsLeaseID opts, ''-verbose='' @ bool_text (Verbose opts),
      ''-plugins-order='' @ Join CHR '','' (PluginsOrder opts)]"

lemma read_flags:
  "read_arg (''-namespace='' @ v) = FlagArg ''namespace'' (Some v)"
  "read_arg ''-class-name'' = FlagArg ''class-name'' None"
  "read_arg (''--class-name-required='' @ v) = FlagArg ''class-name-required'' (Some v)"
  "read_arg (''-config-map='' @ v) = FlagArg ''config-map'' (Some v)"
  "read_arg (''--lease-id='' @ v) = FlagArg ''lease-id'' (Some v)"
  "read_arg (''-verbose='' @ v) = FlagArg ''verbose'' (Some v)"
  "read_arg (''-plugins-order='' @ v) = FlagArg ''plugins-order'' (Some v)"
  by (simp_all add: flag_body_def Contains_def)

lemma ParseBool_bool_text [simp]: "ParseBool (bool_text b) = Some b"
  by (simp add: ParseBool_def bool_text_def)

lemma lookup_flags:
  "lookup_flag ''namespace'' = Some (StringFlag (\<lambda>v f. f\<lparr>namespaceFlag := v\<rparr>))"
  "lookup_flag ''class-name'' = Some (StringFlag (\<lambda>v f. f\<lparr>classNameFlag := v\<rparr>))"
  "lookup_flag ''class-name-required'' = Some (BoolFlag (\<lambda>v f. f\<lparr>classNameRequiredFlag := v\<rparr>))"
  "lookup_flag ''config-map'' = Some (StringFlag (\<lambda>v f. f\<lparr>configMapNameFlag := v\<rparr>))"
  "lookup_flag ''lease-id'' = Some (StringFlag (\<lambda>v f. f\<lparr>leaseIDFlag := v\<rparr>))"
  "lookup_flag ''verbose'' = Some (BoolFlag (\<lambda>v f. f\<lparr>verboseFlag := v\<rparr>))"
  "lookup_flag ''plugins-order'' = Some (StringFlag (\<lambda>v f. f\<lparr>pluginsOrderFlag := v\<rparr>))"
  by (simp_all add: lookup_flag_def)

lemma parse_flags_of:
  "parse_args (flags_of opts) defaultFlags =
     Ok \<lparr>namespaceFlag = WatchNamespace opts, classNameFlag = ClassName opts,
         classNameRequiredFlag = ClassNameRequired opts, configMapNameFlag = ConfigMapName opts,
         leaseIDFlag = OptionsLeaseID opts, verboseFlag = Verbose opts,
         pluginsOrderFlag = Join CHR '','' (PluginsOrder opts)\<rparr>"
  unfolding flags_of_def by (simp add: read_flags lookup_flags defaultFlags_def del: read_arg.simps append.simps)

text \<open>
  C32. Every options value whose plugin order is a non-empty list of names without commas can be asked
  for on the command line, and the flags read back as exactly these options, whatever characters the
  values hold.
\<close>

theorem parseFlags_roundtrip:
  assumes "PluginsOrder opts \<noteq> []" and "\<forall>name \<in> set (PluginsOrder opts). CHR '','' \<notin> set name"
  shows "parseFlags (flags_of opts) = Ok opts"
  using assms by (simp add: parseFlags_def parse_flags_of Split_Join)

theorem parseFlags_roundtrip_witness:
  "parseFlags (flags_of (sample_options\<lparr>WatchNamespace := ''a=-b,c'', PluginsOrder := [''tls'', ''ingress'']\<rparr>)) =
     Ok (sample_options\<lparr>WatchNamespace := ''a=-b,c'', PluginsOrder := [''tls'', ''ingress'']\<rparr>)"
  by (rule parseFlags_roundtrip) simp_all

text \<open>
  A run without flags watches every namespace for ingresses of the class \<open>caddy\<close> or without a class,
  and its plugin order, one empty name, names no plugin: the default order of the plugins applies.
\<close>

lemma parseFlags_default:
  "parseFlags [] = Ok sample_options \<and> names_no_plugin (PluginsOrder sample_options) \<and>
   (isControllerIngress \<lparr>ParamsClassName = ClassName sample_options,
      ParamsClassNameRequired = ClassNameRequired sample_options\<rparr> ing \<longleftrightarrow>
    (let cls = (case (Annotations ing ''kubernetes.io/ingress.class'', IngressClassName ing) of
                  (Some (c # cs), _) \<Rightarrow> c # cs | (_, Some name) \<Rightarrow> name | _ \<Rightarrow> [])
     in cls \<in> {[], ''caddy''}))"
  by (auto simp: parseFlags_def defaultFlags_def sample_options_def names_no_plugin_flags
      isControllerIngress_class Let_def split: option.split list.split)

section \<open>Connecting to the API server\<close>

fun repeat_until :: "nat \<Rightarrow> ('s \<Rightarrow> bool \<times> 's) \<Rightarrow> 's \<Rightarrow> bool \<times> 's" where
  "repeat_until 0 cond s = (False, s)"
| "repeat_until (Suc n) cond s =
     (case cond s of (True, s') \<Rightarrow> (True, s') | (False, s') \<Rightarrow> repeat_until n cond s')"

text \<open>
  \<open>wait.ExponentialBackoff\<close>, as far as it is documented: it calls the condition up to \<open>Steps\<close> times
  until it holds, and returns a timeout error if it never does.
\<close>

locale backoff_api =
  fixes backoff :: "('v, 'w) exponential_backoff"
  assumes repeats: "\<exists>timeout. backoff b cond s =
    (case repeat_until (Steps b) cond s of (ok, s') \<Rightarrow> (if ok then None else Some timeout, s'))"

text \<open>The answers of the API server to a number of requests, one after the other.\<close>

fun answers :: "nat \<Rightarrow> ('w \<Rightarrow> (error + 'v) \<times> 'w) \<Rightarrow> 'w \<Rightarrow> (error + 'v) list" where
  "answers 0 request w = []"
| "answers (Suc n) request w = (case request w of (r, w') \<Rightarrow> r # answers n request w')"

definition first_version :: "(error + 'v) list \<Rightarrow> 'v option" where
  "first_version rs = (case List.find (\<lambda>r. \<not> isl r) rs of None \<Rightarrow> None | Some r \<Rightarrow> Some (projr r))"

lemma repeat_discover:
  "repeat_until n (discover_attempt request) st = (ok, st') \<Longrightarrow>
     (case first_version (answers n request (AttemptWorld st)) of
        Some v \<Rightarrow> ok \<and> Version st' = Some v
      | None \<Rightarrow> \<not> ok \<and> (if n = 0 then lastErr st' = lastErr st
          else lastErr st' = Some (projl (last (answers n request (AttemptWorld st))))))"
proof (induction n arbitrary: st)
  case 0
  then show ?case by (simp add: first_version_def)
next
  case (Suc n)
  obtain r w where r: "request (AttemptWorld st) = (r, w)" by (meson surj_pair)
  show ?case
  proof (cases r)
    case (Inr v)
    with r Suc.prems show ?thesis by (auto simp: discover_attempt_def first_version_def)
  next
    case (Inl e)
    let ?st = "st\<lparr>Version := None, lastErr := Some e, retries := retries st + 1, AttemptWorld := w\<rparr>"
    have "discover_attempt request st = (False, ?st)" using Inl r by (simp add: discover_attempt_def)
    with Suc.prems have "repeat_until n (discover_attempt request) ?st = (ok, st')" by simp
    from Suc.IH [OF this] Inl r show ?thesis
      by (cases n) (auto simp: first_version_def split: option.splits prod.splits)
  qed
qed

context backoff_api
begin

lemma createApiserverClient_connects:
  assumes "buildConfig kubeconfig = Inr cfg"
    and "newForConfig (cfg\<lparr>QPS := highQPS, Burst := highBurst,
           ContentType := ''application/vnd.kubernetes.protobuf''\<rparr>) = Inr client"
  shows "fst (createApiserverClient buildConfig newForConfig serverVersion backoff kubeconfig w) =
    (case first_version (answers 10 (serverVersion client) w) of
       Some v \<Rightarrow> (Some client, Some v, None)
     | None \<Rightarrow> (None, None, Some (projl (last (answers 10 (serverVersion client) w)))))"
proof -
  let ?st = "\<lparr>Version = None, retries = 0, lastErr = None, AttemptWorld = w\<rparr>"
  obtain ok st where run: "repeat_until 10 (discover_attempt (serverVersion client)) ?st = (ok, st)"
    by (meson surj_pair)
  obtain timeout where "backoff defaultRetry (discover_attempt (serverVersion client)) ?st =
      (if ok then None else Some timeout, st)"
    using repeats [of defaultRetry "discover_attempt (serverVersion client)" ?st] run
    by (auto simp: defaultRetry_def)
  with assms repeat_discover [OF run] show ?thesis
    by (auto simp: createApiserverClient_def split: option.splits)
qed

end

text \<open>The documented behaviour as a function, without the waiting.\<close>

definition retry_backoff :: "('v, 'w) exponential_backoff" where
  "retry_backoff b cond s =
     (case repeat_until (Steps b) cond s of
        (ok, s') \<Rightarrow> (if ok then None else Some (ErrorString ''timed out waiting for the condition''), s'))"

interpretation retry: backoff_api retry_backoff
  by unfold_locales (auto simp: retry_backoff_def split: prod.split)

text \<open>
  \<open>createApiserverClient\<close> asks for the version at most ten times. It returns the client with the
  first version that it gets, and otherwise no client and the error of the tenth request: a client that
  cannot be used is never returned without an error.
\<close>

lemma createApiserverClient_result:
  assumes "backoff_api backoff" and "buildConfig kubeconfig = Inr cfg"
    and "newForConfig (cfg\<lparr>QPS := highQPS, Burst := highBurst,
           ContentType := ''application/vnd.kubernetes.protobuf''\<rparr>) = Inr client"
  shows "fst (createApiserverClient buildConfig newForConfig serverVersion backoff kubeconfig w) =
    (case first_version (answers 10 (serverVersion client) w) of
       Some v \<Rightarrow> (Some client, Some v, None)
     | None \<Rightarrow> (None, None, Some (projl (last (answers 10 (serverVersion client) w)))))"
  using assms by (rule backoff_api.createApiserverClient_connects)

lemma createApiserverClient_result_example:
  "fst (createApiserverClient (\<lambda>k. Inr \<lparr>QPS = 0, Burst = 0, ContentType = []\<rparr>) (\<lambda>cfg. Inr (Burst cfg))
      (\<lambda>client n. (if n < (3::nat) then Inl (ErrorString ''refused'') else Inr ''v1'', n + 1)) retry_backoff [] 0) =
   (Some 1000000, Some ''v1'', None)"
proof -
  let ?request = "\<lambda>n. (if n < (3::nat) then Inl (ErrorString ''refused'') else Inr ''v1'', n + 1)"
  have "first_version (answers 10 ?request 0) = Some ''v1''"
    by (simp add: first_version_def eval_nat_numeral)
  with createApiserverClient_result [OF retry.backoff_api_axioms, of "\<lambda>k. Inr \<lparr>QPS = 0, Burst = 0, ContentType = []\<rparr>" "[]"
      "\<lparr>QPS = 0, Burst = 0, ContentType = []\<rparr>" "\<lambda>cfg. Inr (Burst cfg)" highBurst "\<lambda>client. ?request" 0]
  show ?thesis by (simp add: highBurst_def)
qed

section \<open>Starting the controller\<close>

lemma is_Ok_bind_Ok: "is_Ok (bind_result r (\<lambda>v. Ok (f v))) \<longleftrightarrow> is_Ok r"
  by (cases r) simp_all

text \<open>
  The controller starts exactly in two cases: outside a cluster, when neither \<open>POD_NAME\<close> nor
  \<open>POD_NAMESPACE\<close> is set and the flag of the config map gives a namespace; and inside one, when both
  are set and the pod exists. In all other cases the process ends.
\<close>

lemma controller_start_iff:
  "is_Ok (NewCaddyController get podName podNs queue opts) \<longleftrightarrow>
     (if podName = [] \<and> podNs = [] then CHR ''/'' \<in> set (ConfigMapName opts)
      else podName \<noteq> [] \<and> podNs \<noteq> [] \<and> get podNs podName \<noteq> None)"
proof -
  have "is_Ok (config_map_location opts podInfo) \<longleftrightarrow> CHR ''/'' \<in> set (ConfigMapName opts) \<or> podInfo \<noteq> None" for podInfo
    by (cases podInfo) (auto simp: config_map_location_def SplitN2_def Contains_def)
  then show ?thesis
    by (simp add: NewCaddyController_def GetPodDetails_def is_Ok_bind_Ok split: option.split)
qed

context backoff_api
begin

lemma createApiserverClient_no_error:
  assumes "createApiserverClient buildConfig newForConfig serverVersion backoff kubeconfig w = ((client, version, None), w')"
  shows "\<exists>k v. client = Some k \<and> version = Some v"
proof (cases "buildConfig kubeconfig")
  case (Inr cfg)
  show ?thesis
  proof (cases "newForConfig (cfg\<lparr>QPS := highQPS, Burst := highBurst,
      ContentType := ''application/vnd.kubernetes.protobuf''\<rparr>)")
    case (Inr k)
    from createApiserverClient_connects [of buildConfig kubeconfig cfg newForConfig k serverVersion w,
        OF \<open>buildConfig kubeconfig = Inr cfg\<close> Inr] assms
    show ?thesis by (auto split: option.splits)
  qed (use assms Inr in \<open>simp add: createApiserverClient_def\<close>)
qed (use assms in \<open>simp add: createApiserverClient_def\<close>)

end

text \<open>
  When \<open>main\<close> gets to start the controller, the flags were read, the API server has answered with its
  version, and the controller is fresh: it has the options of the flags, no ingress, the zero
  options for the config map, an empty queue and no applied configuration.
\<close>

lemma main_start_fresh:
  assumes "backoff_api backoff"
    and "main_start args buildConfig newForConfig serverVersion backoff pods kubeconfig podName podNs queue w =
      Ok (c, location)"
  shows "\<exists>opts k v pod. parseFlags args = Ok opts \<and>
     fst (createApiserverClient buildConfig newForConfig serverVersion backoff kubeconfig w) = (Some k, Some v, None) \<and>
     NewCaddyController (pods (Some k)) podName podNs queue opts = Ok (c, location) \<and>
     GetPodDetails (pods (Some k)) podName podNs = Ok pod \<and>
     c = \<lparr>resourceStore = NewStore opts (fst location) pod, syncQueue = queue,
          tlsInformer = False, lastAppliedConfig = []\<rparr>"
proof -
  from assms(2) obtain opts where opts: "parseFlags args = Ok opts"
    by (auto simp: main_start_def)
  obtain client version err w1 where
    api: "createApiserverClient buildConfig newForConfig serverVersion backoff kubeconfig w = ((client, version, err), w1)"
    by (metis surj_pair)
  have "WatchNamespace opts = [] \<Longrightarrow> opts\<lparr>WatchNamespace := NamespaceAll\<rparr> = opts"
    by (simp add: NamespaceAll_def)
  then have "err = None" and new: "NewCaddyController (pods client) podName podNs queue opts = Ok (c, location)"
    using assms(2) opts api by (auto simp: main_start_def split: if_splits)
  with backoff_api.createApiserverClient_no_error [OF assms(1)] api obtain k v where
    "client = Some k" "version = Some v" by blast
  with opts api \<open>err = None\<close> new show ?thesis
    by (auto simp: NewCaddyController_def split: result.splits)
qed

end
