(* ===== verification/Process.thy ===== *)
theory Process
  imports Event_System Command
begin

text \<open>
  The life of the process: \<open>main\<close> starts the controller's \<open>Run\<close> in a goroutine and waits for a
  signal; \<open>Run\<close> starts the informers, waits for their caches, starts the worker and the status
  timer, and when the stop channel is closed shuts down and ends the process. Each goroutine is a
  function that takes its next step, \<open>None\<close> where it waits, and \<open>proc_step\<close> interleaves them.

  What the goroutines wait for is a field of the state: the stop channel, the caches of the
  informers, the clock. The two functions of client-go by which they wait are parameters, with their documented
  behaviour as the locale \<open>client_go\<close>: \<open>EnvWaitForCacheSync\<close> gives the result of \<open>cache.WaitForCacheSync\<close> for the
  channel and the caches, \<open>None\<close> while it waits; \<open>EnvUntil\<close> says whether \<open>wait.Until\<close>, which looks at the channel before
  each call, makes the call. A shared informer delivers events of its factory's namespace
  once it runs. A turn of the worker, and each of the three parts of \<open>Shutdown\<close>, is one step.
\<close>

section \<open>Informers\<close>

definition syncInterval :: int where
  "syncInterval = 30 * 1000000"

definition resourcesSyncInterval :: int where
  "resourcesSyncInterval = 3600 * 1000000"

record SharedInformerFactory =
  FactoryNamespace :: string
  FactoryResync :: int

record InformerFactory =
  ConfigNamespaceFactory :: SharedInformerFactory
  WatchedNamespaceFactory :: SharedInformerFactory

definition new_factories :: "Options \<Rightarrow> string \<Rightarrow> InformerFactory" where
  "new_factories opts configNamespace =
     \<lparr>ConfigNamespaceFactory = \<lparr>FactoryNamespace = configNamespace, FactoryResync = resourcesSyncInterval\<rparr>,
      WatchedNamespaceFactory = \<lparr>FactoryNamespace = WatchNamespace opts, FactoryResync = resourcesSyncInterval\<rparr>\<rparr>"

text \<open>The objects the informers of a factory see; a tombstone carries no object.\<close>

fun in_namespace :: "string \<Rightarrow> watched \<Rightarrow> bool" where
  "in_namespace ns (IngressObject ing) \<longleftrightarrow> ns = NamespaceAll \<or> Namespace ing = ns"
| "in_namespace ns (ConfigMapObject cm) \<longleftrightarrow> ns = NamespaceAll \<or> Namespace cm = ns"
| "in_namespace ns (SecretObject s) \<longleftrightarrow> ns = NamespaceAll \<or> Namespace s = ns"
| "in_namespace ns _ \<longleftrightarrow> True"

fun delivers :: "SharedInformerFactory \<Rightarrow> event \<Rightarrow> bool" where
  "delivers f (AddEvent obj) \<longleftrightarrow> in_namespace (FactoryNamespace f) obj"
| "delivers f (UpdateEvent old new) \<longleftrightarrow> in_namespace (FactoryNamespace f) old \<and> in_namespace (FactoryNamespace f) new"
| "delivers f (DeleteEvent obj) \<longleftrightarrow> in_namespace (FactoryNamespace f) obj"

text \<open>An informer: whether it runs, and whether its cache holds the first listing.\<close>

record SharedIndexInformer =
  InformerRuns :: bool
  HasSynced :: bool

text \<open>The informer of the TLS secrets is the field \<open>tlsInformer\<close> of the controller, which the worker sets.\<close>

record Informer =
  IngressInformer :: SharedIndexInformer
  ConfigMapInformer :: SharedIndexInformer

section \<open>The goroutines\<close>

datatype main_pc = MainAtSignal | MainForever

datatype run_pc = RunStart | RunSync | RunSpawn | RunStopped | RunStatuses | RunStopCaddy | RunCleanUp

datatype goroutine = NotStarted | Started | Running | Returned

datatype outcome = Exited int | Crashed panic

record ('q, 'w) process =
  ProcCtl :: "'q CaddyController"
  ProcWorld :: 'w
  Factories :: InformerFactory
  Informers :: Informer
  MainPc :: main_pc
  RunPc :: run_pc
  WorkerPc :: goroutine
  SyncerPc :: goroutine
  stopChan :: bool
  Now :: int
  NextSync :: int
  Outcome :: "outcome option"

text \<open>The level of the logger: that of zap's production configuration, or debugging.\<close>

datatype Level = DebugLevel | ProductionLevel

definition createLogger :: "bool \<Rightarrow> Level" where
  "createLogger verbose = (if verbose then DebugLevel else ProductionLevel)"

text \<open>\<open>main\<close>: a signal closes the stop channel, once; then \<open>main\<close> waits forever.\<close>

definition main_step :: "('q, 'w) process \<Rightarrow> ('q, 'w) process option" where
  "main_step \<sigma> =
     (case MainPc \<sigma> of
        MainAtSignal \<Rightarrow> Some (\<sigma>\<lparr>stopChan := True, MainPc := MainForever\<rparr>)
      | MainForever \<Rightarrow> None)"

text \<open>
  \<open>Run\<close>. That the wait for the caches was given up is only logged. The deferred calls are not reached: \<open>Run\<close> does
  not return, it ends the process.
\<close>

definition Run_step :: "'w ControllerEnv \<Rightarrow> ('w \<Rightarrow> 'w) \<Rightarrow> ('q, 'w) process \<Rightarrow> ('q, 'w) process option" where
  "Run_step env CleanUpOwnLocks \<sigma> =
     (case RunPc \<sigma> of
        RunStart \<Rightarrow>
          Some (\<sigma>\<lparr>Informers := \<lparr>IngressInformer = (IngressInformer (Informers \<sigma>))\<lparr>InformerRuns := True\<rparr>,
                  ConfigMapInformer = (ConfigMapInformer (Informers \<sigma>))\<lparr>InformerRuns := True\<rparr>\<rparr>, RunPc := RunSync\<rparr>)
      | RunSync \<Rightarrow>
          (case EnvWaitForCacheSync env (stopChan \<sigma>)
                  [HasSynced (ConfigMapInformer (Informers \<sigma>)), HasSynced (IngressInformer (Informers \<sigma>))] of
             None \<Rightarrow> None
           | Some synced \<Rightarrow> Some (\<sigma>\<lparr>RunPc := RunSpawn\<rparr>))
      | RunSpawn \<Rightarrow> Some (\<sigma>\<lparr>WorkerPc := Started, SyncerPc := Started, RunPc := RunStopped\<rparr>)
      | RunStopped \<Rightarrow> if stopChan \<sigma> then Some (\<sigma>\<lparr>RunPc := RunStatuses\<rparr>) else None
      | RunStatuses \<Rightarrow>
          (let (ings, w) = updateIngStatuses (EnvIngressClient env) (EnvSchedule env) [\<lparr>IP = [], Hostname = []\<rparr>]
                 (Ingresses (resourceStore (ProcCtl \<sigma>))) (ProcWorld \<sigma>)
           in Some (\<sigma>\<lparr>ProcCtl := set_ingresses ings (ProcCtl \<sigma>), ProcWorld := w, RunPc := RunStopCaddy\<rparr>))
      | RunStopCaddy \<Rightarrow>
          (case EnvStop env (ProcWorld \<sigma>) of
             (Err e, w) \<Rightarrow> Some (\<sigma>\<lparr>ProcWorld := w, Outcome := Some (Exited 1)\<rparr>)
           | (Panic p, w) \<Rightarrow> Some (\<sigma>\<lparr>ProcWorld := w, Outcome := Some (Crashed p)\<rparr>)
           | (Ok _, w) \<Rightarrow> Some (\<sigma>\<lparr>ProcWorld := w, RunPc := RunCleanUp\<rparr>))
      | RunCleanUp \<Rightarrow>
          Some (\<sigma>\<lparr>ProcWorld := CleanUpOwnLocks (ProcWorld \<sigma>), Outcome := Some (Exited 0)\<rparr>))"

text \<open>
  \<open>wait.Until(c.runWorker, time.Second, c.stopChan)\<close>: once \<open>runWorker\<close> runs, it takes action after action
  and does not look at the channel. A panic ends the process.
\<close>

definition worker_step :: "'q QueueOps \<Rightarrow> 'w ControllerEnv \<Rightarrow> ('q, 'w) process \<Rightarrow> ('q, 'w) process option" where
  "worker_step q env \<sigma> =
     (case WorkerPc \<sigma> of
        Started \<Rightarrow> Some (\<sigma>\<lparr>WorkerPc := if EnvUntil env (stopChan \<sigma>) then Running else Returned\<rparr>)
      | Running \<Rightarrow>
          (case processNextItem q env (ProcCtl \<sigma>) (ProcWorld \<sigma>) of
             (Ok True, c, w) \<Rightarrow> Some (\<sigma>\<lparr>ProcCtl := c, ProcWorld := w\<rparr>)
           | (Ok False, c, w) \<Rightarrow> Some (\<sigma>\<lparr>ProcCtl := c, ProcWorld := w, WorkerPc := Started\<rparr>)
           | (Panic p, c, w) \<Rightarrow> Some (\<sigma>\<lparr>ProcCtl := c, ProcWorld := w, Outcome := Some (Crashed p)\<rparr>)
           | (Err e, c, w) \<Rightarrow> None)
      | _ \<Rightarrow> None)"

text \<open>\<open>wait.Until(c.dispatchSync, syncInterval, c.stopChan)\<close>.\<close>

definition syncer_step :: "'q QueueOps \<Rightarrow> 'w ControllerEnv \<Rightarrow> ('q, 'w) process \<Rightarrow> ('q, 'w) process option" where
  "syncer_step q env \<sigma> =
     (if SyncerPc \<sigma> \<noteq> Started then None
      else if \<not> EnvUntil env (stopChan \<sigma>) then Some (\<sigma>\<lparr>SyncerPc := Returned\<rparr>)
      else if NextSync \<sigma> \<le> Now \<sigma>
      then Some (\<sigma>\<lparr>ProcCtl := dispatchSync q (ProcCtl \<sigma>), NextSync := Now \<sigma> + syncInterval\<rparr>)
      else None)"

text \<open>The process when \<open>main\<close> has started \<open>Run\<close>, and \<open>main\<close> up to there, with its logger.\<close>

definition new_process :: "Options \<Rightarrow> 'q CaddyController \<Rightarrow> string \<times> string \<Rightarrow> 'w \<Rightarrow> int \<Rightarrow> ('q, 'w) process" where
  "new_process opts c location w now =
     \<lparr>ProcCtl = c, ProcWorld = w, Factories = new_factories opts (fst location),
      Informers = \<lparr>IngressInformer = \<lparr>InformerRuns = False, HasSynced = False\<rparr>,
        ConfigMapInformer = \<lparr>InformerRuns = False, HasSynced = False\<rparr>\<rparr>,
      MainPc = MainAtSignal, RunPc = RunStart, WorkerPc = NotStarted, SyncerPc = NotStarted,
      stopChan = False, Now = now, NextSync = now, Outcome = None\<rparr>"

definition main_process ::
  "string list \<Rightarrow> (string \<Rightarrow> error + ClientConfig) \<Rightarrow> (ClientConfig \<Rightarrow> error + 'k) \<Rightarrow>
   ('k \<Rightarrow> 'a \<Rightarrow> (error + 'v) \<times> 'a) \<Rightarrow> ('v, 'a) exponential_backoff \<Rightarrow>
   ('k option \<Rightarrow> string \<Rightarrow> string \<Rightarrow> Pod option) \<Rightarrow> string \<Rightarrow> string \<Rightarrow> string \<Rightarrow> 'q \<Rightarrow> 'a \<Rightarrow> 'w \<Rightarrow> int \<Rightarrow>
     (Level \<times> (string \<times> string) \<times> ('q, 'w) process) result" where
  "main_process args buildConfig newForConfig serverVersion backoff pods kubeconfig podName podNs queue api w now =
     bind_result (main_start args buildConfig newForConfig serverVersion backoff pods kubeconfig podName podNs queue api)
       (\<lambda>(c, location). let cfg = StoreOptions (resourceStore c)
          in Ok (createLogger (Verbose cfg), location, new_process cfg c location w now))"

text \<open>The documented behaviour of the two functions.\<close>

locale client_go =
  fixes env :: "'w ControllerEnv"
  assumes sync_true: "EnvWaitForCacheSync env stop synced = Some True \<Longrightarrow> list_all id synced"
    and sync_false: "EnvWaitForCacheSync env stop synced = Some False \<Longrightarrow> stop"
    and sync_returns: "stop \<or> list_all id synced \<Longrightarrow> EnvWaitForCacheSync env stop synced \<noteq> None"
    and until_open: "EnvUntil env stop \<longleftrightarrow> \<not> stop"
begin

lemma stopped_sync: "\<exists>r. EnvWaitForCacheSync env True synced = Some r"
  using sync_returns [of True synced] by blast

lemma sync_result: "EnvWaitForCacheSync env stop synced = Some r \<Longrightarrow> list_all id synced \<or> stop"
  using sync_true [of stop synced] sync_false [of stop synced] by (cases r) auto

end

section \<open>The step relation\<close>

text \<open>Who takes a step; for a step of the informer of the ingresses, the event it delivers.\<close>

datatype actor = ByMain | ByRun | ByWorker | BySyncer | ByIngresses event | ByInformer | ByOutside

inductive proc_step ::
  "'q QueueOps \<Rightarrow> ('q \<Rightarrow> Action list) \<Rightarrow> 'w ControllerEnv \<Rightarrow> ('w \<Rightarrow> 'w) \<Rightarrow> Options \<Rightarrow> string \<times> string \<Rightarrow>
     ('q, 'w) process \<Rightarrow> actor \<Rightarrow> ('q, 'w) process \<Rightarrow> bool"
  for q pending env CleanUpOwnLocks opts location
  where
    main: "Outcome \<sigma> = None \<Longrightarrow> main_step \<sigma> = Some \<sigma>' \<Longrightarrow>
      proc_step q pending env CleanUpOwnLocks opts location \<sigma> ByMain \<sigma>'"
  | run: "Outcome \<sigma> = None \<Longrightarrow> Run_step env CleanUpOwnLocks \<sigma> = Some \<sigma>' \<Longrightarrow>
      proc_step q pending env CleanUpOwnLocks opts location \<sigma> ByRun \<sigma>'"
  | worker: "Outcome \<sigma> = None \<Longrightarrow> WorkerPc \<sigma> = Running \<longrightarrow> pending (syncQueue (ProcCtl \<sigma>)) \<noteq> [] \<Longrightarrow>
      worker_step q env \<sigma> = Some \<sigma>' \<Longrightarrow>
      proc_step q pending env CleanUpOwnLocks opts location \<sigma> ByWorker \<sigma>'"
  | syncer: "Outcome \<sigma> = None \<Longrightarrow> syncer_step q env \<sigma> = Some \<sigma>' \<Longrightarrow>
      proc_step q pending env CleanUpOwnLocks opts location \<sigma> BySyncer \<sigma>'"
  | configmap_synced: "Outcome \<sigma> = None \<Longrightarrow> InformerRuns (ConfigMapInformer (Informers \<sigma>)) \<Longrightarrow>
      proc_step q pending env CleanUpOwnLocks opts location \<sigma> ByInformer
        (\<sigma>\<lparr>Informers := (Informers \<sigma>)\<lparr>ConfigMapInformer := \<lparr>InformerRuns = True, HasSynced = True\<rparr>\<rparr>\<rparr>)"
  | ingress_synced: "Outcome \<sigma> = None \<Longrightarrow> InformerRuns (IngressInformer (Informers \<sigma>)) \<Longrightarrow>
      proc_step q pending env CleanUpOwnLocks opts location \<sigma> ByInformer
        (\<sigma>\<lparr>Informers := (Informers \<sigma>)\<lparr>IngressInformer := \<lparr>InformerRuns = True, HasSynced = True\<rparr>\<rparr>\<rparr>)"
  | ingress_event: "Outcome \<sigma> = None \<Longrightarrow> InformerRuns (IngressInformer (Informers \<sigma>)) \<Longrightarrow>
      delivers (WatchedNamespaceFactory (Factories \<sigma>)) e \<Longrightarrow>
      proc_step q pending env CleanUpOwnLocks opts location \<sigma> (ByIngresses e)
        (\<sigma>\<lparr>ProcCtl := ingress_events q opts e (ProcCtl \<sigma>)\<rparr>)"
  | configmap_event: "Outcome \<sigma> = None \<Longrightarrow> InformerRuns (ConfigMapInformer (Informers \<sigma>)) \<Longrightarrow>
      delivers (ConfigNamespaceFactory (Factories \<sigma>)) e \<Longrightarrow>
      proc_step q pending env CleanUpOwnLocks opts location \<sigma> ByInformer
        (\<sigma>\<lparr>ProcCtl := configmap_events q location e (ProcCtl \<sigma>)\<rparr>)"
  | secret_event: "Outcome \<sigma> = None \<Longrightarrow> tlsInformer (ProcCtl \<sigma>) \<Longrightarrow>
      delivers (WatchedNamespaceFactory (Factories \<sigma>)) e \<Longrightarrow>
      proc_step q pending env CleanUpOwnLocks opts location \<sigma> ByInformer
        (\<sigma>\<lparr>ProcCtl := secret_events q e (ProcCtl \<sigma>)\<rparr>)"
  | outside: "Outcome \<sigma> = None \<Longrightarrow> Now \<sigma> \<le> now \<Longrightarrow>
      proc_step q pending env CleanUpOwnLocks opts location \<sigma> ByOutside (\<sigma>\<lparr>ProcWorld := w, Now := now\<rparr>)"

text \<open>A run: the steps in order, each with the goroutine that takes it.\<close>

inductive proc_run ::
  "'q QueueOps \<Rightarrow> ('q \<Rightarrow> Action list) \<Rightarrow> 'w ControllerEnv \<Rightarrow> ('w \<Rightarrow> 'w) \<Rightarrow> Options \<Rightarrow> string \<times> string \<Rightarrow>
     ('q, 'w) process \<Rightarrow> actor list \<Rightarrow> ('q, 'w) process \<Rightarrow> bool"
  for q pending env CleanUpOwnLocks opts location \<sigma>
  where
    none: "proc_run q pending env CleanUpOwnLocks opts location \<sigma> [] \<sigma>"
  | more: "proc_run q pending env CleanUpOwnLocks opts location \<sigma> actors \<sigma>' \<Longrightarrow>
      proc_step q pending env CleanUpOwnLocks opts location \<sigma>' a \<sigma>'' \<Longrightarrow>
      proc_run q pending env CleanUpOwnLocks opts location \<sigma> (actors @ [a]) \<sigma>''"

inductive_cases proc_stepE: "proc_step q pending env CleanUpOwnLocks opts location \<sigma> a \<sigma>'"

text \<open>The states of a process that \<open>main\<close> has started with given options.\<close>

definition proc_reachable ::
  "'q QueueOps \<Rightarrow> ('q \<Rightarrow> Action list) \<Rightarrow> ('q \<Rightarrow> bool) \<Rightarrow> 'w ControllerEnv \<Rightarrow> ('w \<Rightarrow> 'w) \<Rightarrow> Options \<Rightarrow>
     string \<times> string \<Rightarrow> ('q, 'w) process \<Rightarrow> bool" where
  "proc_reachable q pending down env CleanUpOwnLocks opts location \<sigma> \<longleftrightarrow>
     (\<exists>get podName podNs queue c w now actors.
        NewCaddyController get podName podNs queue opts = Ok (c, location) \<and> pending queue = [] \<and> \<not> down queue \<and>
        proc_run q pending env CleanUpOwnLocks opts location (new_process opts c location w now) actors \<sigma>)"

lemma proc_reachable_induct [consumes 1, case_names start step]:
  assumes "proc_reachable q pending down env CleanUpOwnLocks opts location \<sigma>"
    and "\<And>get podName podNs queue c w now. NewCaddyController get podName podNs queue opts = Ok (c, location) \<Longrightarrow>
      pending queue = [] \<Longrightarrow> \<not> down queue \<Longrightarrow> P (new_process opts c location w now)"
    and "\<And>\<sigma> a \<sigma>'. P \<sigma> \<Longrightarrow> proc_step q pending env CleanUpOwnLocks opts location \<sigma> a \<sigma>' \<Longrightarrow> P \<sigma>'"
  shows "P \<sigma>"
proof -
  from assms(1) obtain get podName podNs queue c w now actors where
    new: "NewCaddyController get podName podNs queue opts = Ok (c, location)" "pending queue = []" "\<not> down queue" and
    run: "proc_run q pending env CleanUpOwnLocks opts location (new_process opts c location w now) actors \<sigma>"
    unfolding proc_reachable_def by blast
  from run show ?thesis
    by (induction rule: proc_run.induct) (blast intro: assms(2) [OF new] assms(3))+
qed

lemmas goroutine_defs = main_step_def Run_step_def worker_step_def syncer_step_def

lemma proc_run_Nil [simp]: "proc_run q pending env CleanUpOwnLocks opts location \<sigma> [] \<sigma>' \<longleftrightarrow> \<sigma>' = \<sigma>"
  by (auto elim: proc_run.cases intro: proc_run.none)

lemma proc_run_first:
  "proc_run q pending env CleanUpOwnLocks opts location \<sigma> as \<sigma>'' \<Longrightarrow> as = a # actors \<Longrightarrow>
     \<exists>\<sigma>'. proc_step q pending env CleanUpOwnLocks opts location \<sigma> a \<sigma>' \<and>
       proc_run q pending env CleanUpOwnLocks opts location \<sigma>' actors \<sigma>''"
proof (induction arbitrary: actors rule: proc_run.induct)
  case (more as \<tau> b \<tau>')
  show ?case
  proof (cases as)
    case Nil
    with more show ?thesis by auto
  next
    case (Cons c bs)
    with more.prems have "c = a" "actors = bs @ [b]" by simp_all
    with more.IH [of bs] Cons more.hyps(2) show ?thesis by (blast intro: proc_run.more)
  qed
qed simp

lemma proc_run_before:
  assumes "proc_step q pending env CleanUpOwnLocks opts location \<sigma> a \<sigma>'"
  shows "proc_run q pending env CleanUpOwnLocks opts location \<sigma>' actors \<sigma>'' \<Longrightarrow>
     proc_run q pending env CleanUpOwnLocks opts location \<sigma> (a # actors) \<sigma>''"
proof (induction rule: proc_run.induct)
  case none
  from proc_run.more [OF proc_run.none assms] show ?case by simp
next
  case (more actors \<tau> b \<tau>')
  from proc_run.more [OF more.IH more.hyps(2)] show ?case by simp
qed

lemma proc_run_Cons:
  "proc_run q pending env CleanUpOwnLocks opts location \<sigma> (a # actors) \<sigma>'' \<longleftrightarrow>
     (\<exists>\<sigma>'. proc_step q pending env CleanUpOwnLocks opts location \<sigma> a \<sigma>' \<and>
        proc_run q pending env CleanUpOwnLocks opts location \<sigma>' actors \<sigma>'')"
  using proc_run_first [of q pending env CleanUpOwnLocks opts location \<sigma> "a # actors" \<sigma>'' a actors]
    proc_run_before [of q pending env CleanUpOwnLocks opts location \<sigma> a _ actors \<sigma>''] by auto

lemma proc_run_append:
  assumes "proc_run q pending env CleanUpOwnLocks opts location \<sigma> actors \<sigma>'"
  shows "proc_run q pending env CleanUpOwnLocks opts location \<sigma>' actors' \<sigma>'' \<Longrightarrow>
     proc_run q pending env CleanUpOwnLocks opts location \<sigma> (actors @ actors') \<sigma>''"
proof (induction rule: proc_run.induct)
  case none
  with assms show ?case by simp
next
  case (more actors' \<tau> a \<tau>')
  from proc_run.more [OF more.IH more.hyps(2)] show ?case by simp
qed

section \<open>The process and its cluster\<close>

text \<open>A process that \<open>main\<close> has just started.\<close>

definition started_process ::
  "('q \<Rightarrow> Action list) \<Rightarrow> ('q \<Rightarrow> bool) \<Rightarrow> Options \<Rightarrow> string \<times> string \<Rightarrow> ('q, 'w) process \<Rightarrow> bool" where
  "started_process pending down opts location \<sigma> \<longleftrightarrow>
     (\<exists>get podName podNs queue c w now. NewCaddyController get podName podNs queue opts = Ok (c, location) \<and>
        pending queue = [] \<and> \<not> down queue \<and> \<sigma> = new_process opts c location w now)"

text \<open>
  A run of the process with what it means for the cluster: the ingresses of the cluster after the events of the run,
  and the UIDs of which the controller has missed the last change.
\<close>

inductive tracked_run ::
  "'q QueueOps \<Rightarrow> ('q \<Rightarrow> Action list) \<Rightarrow> 'w ControllerEnv \<Rightarrow> ('w \<Rightarrow> 'w) \<Rightarrow> Options \<Rightarrow> string \<times> string \<Rightarrow>
     ('q, 'w) process \<Rightarrow> actor list \<Rightarrow> ('q, 'w) process \<Rightarrow> (string \<rightharpoonup> Ingress) \<Rightarrow> string set \<Rightarrow> bool"
  for q pending env CleanUpOwnLocks opts location \<sigma>
  where
    none: "tracked_run q pending env CleanUpOwnLocks opts location \<sigma> [] \<sigma> Map.empty {}"
  | ingress: "tracked_run q pending env CleanUpOwnLocks opts location \<sigma> actors \<sigma>' m stale \<Longrightarrow>
      proc_step q pending env CleanUpOwnLocks opts location \<sigma>' (ByIngresses e) \<sigma>'' \<Longrightarrow>
      tracked_run q pending env CleanUpOwnLocks opts location \<sigma> (actors @ [ByIngresses e]) \<sigma>'' (cluster_event e m)
        (stale_after q pending (watch_params opts) e (ProcCtl \<sigma>') m stale)"
  | other: "tracked_run q pending env CleanUpOwnLocks opts location \<sigma> actors \<sigma>' m stale \<Longrightarrow>
      proc_step q pending env CleanUpOwnLocks opts location \<sigma>' a \<sigma>'' \<Longrightarrow> (\<And>e. a \<noteq> ByIngresses e) \<Longrightarrow>
      tracked_run q pending env CleanUpOwnLocks opts location \<sigma> (actors @ [a]) \<sigma>'' m stale"

lemma tracked_run_proc_run:
  "tracked_run q pending env CleanUpOwnLocks opts location \<sigma> actors \<sigma>' m stale \<Longrightarrow>
     proc_run q pending env CleanUpOwnLocks opts location \<sigma> actors \<sigma>'"
  by (induction rule: tracked_run.induct) (auto intro: proc_run.more)

text \<open>Every run is tracked, by one cluster and one set.\<close>

lemma proc_run_tracked:
  "proc_run q pending env CleanUpOwnLocks opts location \<sigma> actors \<sigma>' \<Longrightarrow>
     \<exists>m stale. tracked_run q pending env CleanUpOwnLocks opts location \<sigma> actors \<sigma>' m stale"
proof (induction rule: proc_run.induct)
  case none
  then show ?case by (blast intro: tracked_run.none)
next
  case (more actors \<sigma>' a \<sigma>'')
  then show ?case by (cases a) (blast intro: tracked_run.ingress tracked_run.other)+
qed

lemma proc_run_reachable:
  "started_process pending down opts location \<sigma> \<Longrightarrow>
     proc_run q pending env CleanUpOwnLocks opts location \<sigma> actors \<sigma>' \<Longrightarrow>
     proc_reachable q pending down env CleanUpOwnLocks opts location \<sigma>'"
  unfolding started_process_def proc_reachable_def by blast

lemma live_before: "proc_step q pending env CleanUpOwnLocks opts location \<sigma> a \<sigma>' \<Longrightarrow> Outcome \<sigma> = None"
  by (auto elim: proc_step.cases)

lemma other_step_left:
  assumes "proc_step q pending env CleanUpOwnLocks opts location \<sigma> a \<sigma>'" and "a \<noteq> ByRun"
  shows "RunPc \<sigma>' = RunPc \<sigma>" and "stopChan \<sigma> \<Longrightarrow> stopChan \<sigma>'"
  using assms by (auto elim!: proc_step.cases simp: main_step_def worker_step_def syncer_step_def
      split: main_pc.splits goroutine.splits prod.splits result.splits bool.splits if_splits)

end
