(* ===== verification/Process_Run.thy ===== *)
theory Process_Run
  imports Process
begin

text \<open>
  A run of the process in memory, on which the properties of the process are instantiated: start, listing of one
  ingress, the turn of the worker that stores it, a signal, and the exit.
\<close>

section \<open>A run of the process\<close>

text \<open>
  A process in a pod of the namespace \<open>caddy-system\<close> behind a load balancer, in a cluster with one
  ingress. The world is the one of \<open>mem_controller\<close>, with the service of the load balancer.
\<close>

definition front_service :: Service where
  "front_service =
     \<lparr>Name = ''caddy'', Namespace = ''caddy-system'', UID = [], Annotations = Map.empty, Selector = [],
      ServiceTypeOf = ServiceTypeLoadBalancer, ClusterIP = [], ExternalName = [],
      ServiceLoadBalancer = [\<lparr>IP = ''203.0.113.7'', Hostname = []\<rparr>]\<rparr>"

definition front_env :: "ctl_world ControllerEnv" where
  "front_env = mem_controller\<lparr>EnvServices := (\<lambda>w ns. Ok [front_service])\<rparr>"

definition front_opts :: Options where
  "front_opts = sample_options\<lparr>ConfigMapName := ''cm''\<rparr>"

definition front_pod :: PodInfo where
  "front_pod = \<lparr>PodName = ''caddy-0'', PodNamespace = ''caddy-system'', PodInfoLabels = []\<rparr>"

definition front_ingress :: Ingress where
  "front_ingress = sample_ingress Map.empty [] []"

definition front_world :: ctl_world where
  "front_world = empty_world\<lparr>MemIngresses := [front_ingress]\<rparr>"

definition front_controller :: "(Action list \<times> bool) CaddyController" where
  "front_controller =
     \<lparr>resourceStore = NewStore front_opts ''caddy-system'' (Some front_pod), syncQueue = ([], False),
      tlsInformer = False, lastAppliedConfig = []\<rparr>"

abbreviation front_location :: "string \<times> string" where
  "front_location \<equiv> (''caddy-system'', ''cm'')"

abbreviation front_reachable :: "(Action list \<times> bool, ctl_world) process \<Rightarrow> bool" where
  "front_reachable \<equiv> proc_reachable list_queue fst snd front_env id front_opts front_location"

abbreviation front_step ::
  "(Action list \<times> bool, ctl_world) process \<Rightarrow> actor \<Rightarrow> (Action list \<times> bool, ctl_world) process \<Rightarrow> bool" where
  "front_step \<equiv> proc_step list_queue fst front_env id front_opts front_location"

lemma front_env_fields [simp]:
  "EnvServices front_env = (\<lambda>w ns. Ok [front_service])" "EnvIngressClient front_env = mem_ingress_client"
  "EnvSchedule front_env = (\<lambda>jobs. jobs)" "EnvLoad front_env j w = (Ok (), w\<lparr>MemLoaded := Some j\<rparr>)"
  "EnvStop front_env w = (Ok (), w\<lparr>MemLoaded := None\<rparr>)"
  "EnvConvert front_env = ConvertToCaddyConfig rev id ''/etc/caddy/certs''"
  "EnvWaitForCacheSync front_env stop synced = (if list_all id synced then Some True else if stop then Some False else None)"
  "EnvUntil front_env stop = (\<not> stop)"
  "EnvMarshal front_env cfg = Ok (''routes:'' @ utoa (length (http_routes cfg)))"
  by (simp_all add: front_env_def mem_controller_def fun_eq_iff)

lemma cert_folder_front: "cert_folder front_env = ''/etc/caddy/certs''"
  by (simp add: cert_folder_def GetCertFolder_def front_env_def mem_controller_def)

interpretation front: caddy_controller front_env MemLoaded MemFiles rev id
proof
  show "EnvConvert front_env = ConvertToCaddyConfig rev id (cert_folder front_env)"
    unfolding cert_folder_front by simp
qed (auto simp: front_env_def mem_controller_def mem_ingress_client_def split: if_splits option.splits)

interpretation front_go: client_go front_env
  by unfold_locales (auto simp: front_env_def mem_controller_def split: if_splits)

lemma front_new:
  "NewCaddyController (\<lambda>ns n. Some \<lparr>Name = n, Namespace = ns, UID = [], Annotations = Map.empty, PodLabels = []\<rparr>)
     ''caddy-0'' ''caddy-system'' ([], False) front_opts = Ok (front_controller, front_location)"
  by (simp add: NewCaddyController_def GetPodDetails_def config_map_location_def SplitN2_def Contains_def
      front_controller_def front_pod_def front_opts_def)

text \<open>Conversion and encoding of a store with the ingress, which has no rules.\<close>

lemma front_config:
  assumes "Ingresses s = [ing]" and "Rules ing = []" and "StoreConfigMap s = Some zeroConfigMapOptions"
    and "StoreOptions s = front_opts"
  shows "bind_result (EnvConvert front_env s) (EnvMarshal front_env) = Ok ''routes:0''"
proof -
  have "make_routes hs NewConfig s = Ok []" for hs using assms by (simp add: make_routes_def)
  moreover have "names_no_plugin (PluginsOrder (StoreOptions s))"
    using assms(4) by (simp add: front_opts_def sample_options_def names_no_plugin_flags)
  ultimately have "ConvertToCaddyConfig rev id ''/etc/caddy/certs'' s =
      Ok (config_of zeroConfigMapOptions ''/etc/caddy/certs'' (secret_storage s) (tls_hosts (Ingresses s)) [] [healthzRoute])"
    using default_pipeline [of rev id s zeroConfigMapOptions "''/etc/caddy/certs''"] assms(3)
    by (simp add: zeroConfigMapOptions_def del: bind_result_eq_Ok)
  moreover have "utoa 0 = ''0''" by code_simp
  ultimately show ?thesis by (simp add: http_routes_def config_of_simps)
qed

lemma front_addresses:
  "GetAddresses (\<lambda>ns. Ok [front_service]) (Some front_pod) = Ok [''203.0.113.7'']"
  "sliceToLoadBalancerIngress [''203.0.113.7''] = [\<lparr>IP = ''203.0.113.7'', Hostname = []\<rparr>]"
proof -
  show "GetAddresses (\<lambda>ns. Ok [front_service]) (Some front_pod) = Ok [''203.0.113.7'']"
    by (simp add: GetAddresses_def front_service_def front_pod_def isSubset_def GetAddressFromService_def)
  have "ParseIP_ok ''203.0.113.7''" by code_simp
  then show "sliceToLoadBalancerIngress [''203.0.113.7''] = [\<lparr>IP = ''203.0.113.7'', Hostname = []\<rparr>]"
    by (simp add: sliceToLoadBalancerIngress_def lb_ip_def)
qed

text \<open>The two turns of the worker in the run.\<close>

definition front_store :: Store where
  "front_store = AddIngress front_ingress (NewStore front_opts ''caddy-system'' (Some front_pod))"

lemma front_store_fields:
  "Ingresses front_store = [front_ingress]" "StoreConfigMap front_store = Some zeroConfigMapOptions"
  "StoreOptions front_store = front_opts" "CurrentPod front_store = Some front_pod" "\<not> HasManagedTLS front_store"
  by (simp_all add: front_store_def NewStore_def Ingresses_AddIngress HasManagedTLS_def front_ingress_def sample_ingress_def)

lemma front_store_same: "front_store\<lparr>Ingresses := [front_ingress]\<rparr> = front_store"
  using front_store_fields(1) by (cases front_store) simp

lemma front_sorted: "sort_status front_ingress = front_ingress"
  by (simp add: sort_status_def front_ingress_def sample_ingress_def)

lemma front_added:
  "process_action front_env (IngressAddedAction front_ingress) (front_controller\<lparr>syncQueue := s\<rparr>) w =
     (Ok True, front_controller\<lparr>resourceStore := front_store, syncQueue := s, lastAppliedConfig := ''routes:0''\<rparr>,
      w\<lparr>MemLoaded := Some ''routes:0''\<rparr>)"
proof -
  have "handle front_env (IngressAddedAction front_ingress) (front_controller\<lparr>syncQueue := s\<rparr>) w =
      (Ok (), front_controller\<lparr>resourceStore := front_store, syncQueue := s\<rparr>, w)"
    using front_store_fields(5)
    by (simp add: IngressAddedAction_handle_def watchTLSSecrets_def front_store_def front_controller_def)
  moreover have "bind_result (EnvConvert front_env front_store) (EnvMarshal front_env) = Ok ''routes:0''"
    by (rule front_config [of front_store front_ingress])
      (simp_all add: front_store_fields, simp add: front_ingress_def sample_ingress_def)
  ultimately show ?thesis
    by (simp add: process_action_def reloadCaddy_def front_controller_def del: bind_result_eq_Ok front_env_fields(6,9))
qed


definition front_lb :: IngressLoadBalancerIngress where
  "front_lb = \<lparr>IP = ''203.0.113.7'', Hostname = []\<rparr>"

lemma front_updated:
  assumes "MemIngresses w = [front_ingress\<lparr>LoadBalancerIngress := st\<rparr>]" and "LoadBalancerIngress ing \<noteq> lbs"
    and "Name ing = ''web''" and "Namespace ing = ''default''" and "lbs = [lb]"
  shows "updateIngStatuses mem_ingress_client (\<lambda>jobs. jobs) lbs [ing] w =
    ([sort_status ing], w\<lparr>MemIngresses := [front_ingress\<lparr>LoadBalancerIngress := lbs\<rparr>]\<rparr>)"
proof -
  have "\<not> ingressSliceEqual (LoadBalancerIngress (sort_status ing)) lbs"
    using assms(2,5) sorted_lb_eq_iff [of "LoadBalancerIngress ing" lbs] by (simp add: ingressSliceEqual_iff sort_status_def)
  with assms show ?thesis
    by (simp add: updateIngStatuses_def status_updates_def runUpdate_def UpdateIngressStatus_def mem_ingress_client_def
        sort_status_def front_ingress_def sample_ingress_def)
qed

lemma front_synced:
  assumes "resourceStore c = front_store" and "lastAppliedConfig c = ''routes:0''"
    and "MemIngresses w = [front_ingress\<lparr>LoadBalancerIngress := st\<rparr>]"
  shows "process_action front_env SyncStatusAction c w =
    (Ok True, c, w\<lparr>MemIngresses := [front_ingress\<lparr>LoadBalancerIngress := [front_lb]\<rparr>]\<rparr>)"
proof -
  have c: "set_ingresses [front_ingress] c = c"
    using assms(1) front_store_same by (cases c) (simp add: set_ingresses_def)
  have "updateIngStatuses mem_ingress_client (\<lambda>jobs. jobs) [front_lb] [front_ingress] w =
      ([front_ingress], w\<lparr>MemIngresses := [front_ingress\<lparr>LoadBalancerIngress := [front_lb]\<rparr>]\<rparr>)"
    using front_updated [OF assms(3), of front_ingress "[front_lb]" front_lb] front_sorted
    by (simp add: front_ingress_def sample_ingress_def)
  then have "handle front_env SyncStatusAction c w =
      (Ok (), c, w\<lparr>MemIngresses := [front_ingress\<lparr>LoadBalancerIngress := [front_lb]\<rparr>]\<rparr>)"
    using c assms(1) front_addresses
    by (simp add: SyncStatusAction_handle_def syncStatus_def front_store_fields front_lb_def)
  moreover have "bind_result (EnvConvert front_env (resourceStore c)) (EnvMarshal front_env) = Ok ''routes:0''"
    by (rule front_config [of _ front_ingress])
      (simp_all add: assms(1) front_store_fields, simp add: front_ingress_def sample_ingress_def)
  ultimately show ?thesis
    using assms(2) by (simp add: process_action_def reloadCaddy_def del: bind_result_eq_Ok front_env_fields(6,9))
qed


text \<open>
  The run: the informers have listed the ingress and have synced; then the worker has stored the ingress and waits.
\<close>

definition front_listed :: "(Action list \<times> bool, ctl_world) process" where
  "front_listed =
     \<lparr>ProcCtl = front_controller\<lparr>syncQueue := ([IngressAddedAction front_ingress], False)\<rparr>,
      ProcWorld = front_world, Factories = new_factories front_opts ''caddy-system'',
      Informers = \<lparr>IngressInformer = \<lparr>InformerRuns = True, HasSynced = True\<rparr>,
        ConfigMapInformer = \<lparr>InformerRuns = True, HasSynced = True\<rparr>\<rparr>,
      MainPc = MainAtSignal, RunPc = RunSync, WorkerPc = NotStarted, SyncerPc = NotStarted,
      stopChan = False, Now = 0, NextSync = 0, Outcome = None\<rparr>"

definition front_running :: "(Action list \<times> bool, ctl_world) process" where
  "front_running = front_listed\<lparr>
     ProcCtl := front_controller\<lparr>resourceStore := front_store, syncQueue := ([], False), lastAppliedConfig := ''routes:0''\<rparr>,
     ProcWorld := front_world\<lparr>MemLoaded := Some ''routes:0''\<rparr>,
     RunPc := RunStopped, WorkerPc := Running, SyncerPc := Started\<rparr>"

definition front_start :: "(Action list \<times> bool, ctl_world) process" where
  "front_start = new_process front_opts front_controller front_location front_world 0"

lemma front_started: "started_process fst snd front_opts front_location front_start"
  using front_new by (fastforce simp: started_process_def front_start_def)

abbreviation front_tracked ::
  "actor list \<Rightarrow> (Action list \<times> bool, ctl_world) process \<Rightarrow> (string \<rightharpoonup> Ingress) \<Rightarrow> string set \<Rightarrow> bool" where
  "front_tracked \<equiv> tracked_run list_queue fst front_env id front_opts front_location front_start"

lemma front_tracked_step:
  "front_tracked actors \<sigma> m stale \<Longrightarrow> front_step \<sigma> a \<sigma>' \<Longrightarrow> (\<And>e. a \<noteq> ByIngresses e) \<Longrightarrow>
     front_tracked (actors @ [a]) \<sigma>' m stale"
  by (rule tracked_run.other)

abbreviation front_cluster :: "string \<rightharpoonup> Ingress" where
  "front_cluster \<equiv> [''u1'' \<mapsto> front_ingress]"

definition front_listing :: "actor list" where
  "front_listing = [ByRun, ByIngresses (AddEvent (IngressObject front_ingress)), ByInformer, ByInformer]"

definition front_starting :: "actor list" where
  "front_starting = front_listing @ [ByRun, ByRun, ByWorker, ByWorker]"

definition front_stopping :: "actor list" where
  "front_stopping = front_starting @ [BySyncer, ByMain, ByRun, ByRun]"

lemma front_listed_tracked: "front_tracked front_listing front_listed front_cluster {}"
proof -
  let ?p0 = front_start
  let ?on = "\<lparr>InformerRuns = True, HasSynced = False\<rparr>" and ?synced = "\<lparr>InformerRuns = True, HasSynced = True\<rparr>"
  let ?p1 = "?p0\<lparr>Informers := \<lparr>IngressInformer = ?on, ConfigMapInformer = ?on\<rparr>, RunPc := RunSync\<rparr>"
  let ?added = "front_controller\<lparr>syncQueue := ([IngressAddedAction front_ingress], False)\<rparr>"
  let ?p2 = "?p1\<lparr>ProcCtl := ?added\<rparr>"
  let ?p3 = "?p2\<lparr>Informers := \<lparr>IngressInformer = ?on, ConfigMapInformer = ?synced\<rparr>\<rparr>"
  let ?e = "AddEvent (IngressObject front_ingress)"
  have "front_step ?p0 ByRun ?p1"
    by (rule proc_step.run) (simp_all add: front_start_def new_process_def Run_step_def)
  from front_tracked_step [OF tracked_run.none this] have o1: "front_tracked [ByRun] ?p1 Map.empty {}" by simp
  have mine: "isControllerIngress (watch_params front_opts) front_ingress"
    by (simp add: isControllerIngress_def watch_params_def front_opts_def sample_options_def front_ingress_def sample_ingress_def)
  have event: "ingress_events list_queue front_opts ?e front_controller = ?added"
    using mine by (simp add: ingress_events_queue enqueue_def list_queue_def front_controller_def)
  have "front_step ?p1 (ByIngresses ?e) (?p1\<lparr>ProcCtl := ingress_events list_queue front_opts ?e (ProcCtl ?p1)\<rparr>)"
    by (rule proc_step.ingress_event)
      (simp_all add: front_start_def new_process_def new_factories_def front_opts_def sample_options_def NamespaceAll_def)
  then have "front_step ?p1 (ByIngresses ?e) ?p2" by (simp add: event front_start_def new_process_def)
  from tracked_run.ingress [OF o1 this]
  have o2: "front_tracked ([ByRun] @ [ByIngresses ?e]) ?p2 (Map.empty(UID front_ingress \<mapsto> front_ingress))
      (stale_after list_queue fst (watch_params front_opts) ?e (ProcCtl ?p1) Map.empty {})" by simp
  have "stale_after list_queue fst (watch_params front_opts) ?e (ProcCtl ?p1) Map.empty {} = {}"
    using plain_event_not_stale [of "watch_params front_opts" Map.empty ?e fst list_queue "ProcCtl ?p1" "{}"] mine
    by (simp add: front_start_def new_process_def front_controller_def list_queue_def)
  with o2 have o2: "front_tracked [ByRun, ByIngresses ?e] ?p2 front_cluster {}"
    by simp (simp add: front_ingress_def sample_ingress_def)
  have "front_step ?p2 ByInformer ?p3"
    using proc_step.configmap_synced [of ?p2 list_queue fst front_env id front_opts front_location]
    by (simp add: front_start_def new_process_def)
  from front_tracked_step [OF o2 this] have o3: "front_tracked [ByRun, ByIngresses ?e, ByInformer] ?p3 front_cluster {}" by simp
  have "front_step ?p3 ByInformer front_listed"
    using proc_step.ingress_synced [of ?p3 list_queue fst front_env id front_opts front_location]
    by (simp add: front_start_def new_process_def front_listed_def)
  from front_tracked_step [OF o3 this] show ?thesis by (simp add: front_listing_def)
qed

lemma front_spawned_tracked:
  "front_tracked (front_listing @ [ByRun, ByRun, ByWorker])
     (front_listed\<lparr>WorkerPc := Running, SyncerPc := Started, RunPc := RunStopped\<rparr>) front_cluster {}"
proof -
  let ?p5 = "front_listed\<lparr>RunPc := RunSpawn\<rparr>"
  let ?p6 = "front_listed\<lparr>WorkerPc := Started, SyncerPc := Started, RunPc := RunStopped\<rparr>"
  have "front_step front_listed ByRun ?p5"
    by (rule proc_step.run) (simp_all add: front_listed_def Run_step_def)
  note o5 = front_tracked_step [OF front_listed_tracked this]
  have "front_step ?p5 ByRun ?p6"
    by (rule proc_step.run) (simp_all add: front_listed_def Run_step_def)
  note o6 = front_tracked_step [OF o5 this]
  have "front_step ?p6 ByWorker (front_listed\<lparr>WorkerPc := Running, SyncerPc := Started, RunPc := RunStopped\<rparr>)"
    by (rule proc_step.worker) (simp_all add: front_listed_def worker_step_def)
  from front_tracked_step [OF o6 this] show ?thesis by simp
qed

lemma front_running_tracked: "front_tracked front_starting front_running front_cluster {}"
proof -
  have "processNextItem list_queue front_env (ProcCtl front_listed) front_world =
      (Ok True, ProcCtl front_running, front_world\<lparr>MemLoaded := Some ''routes:0''\<rparr>)"
    using front_added [of "([], False)" front_world]
    by (simp add: processNextItem_def list_queue_def front_listed_def front_running_def)
  then have "front_step (front_listed\<lparr>WorkerPc := Running, SyncerPc := Started, RunPc := RunStopped\<rparr>) ByWorker front_running"
    by (intro proc_step.worker) (simp_all add: worker_step_def front_listed_def front_running_def)
  from front_tracked_step [OF front_spawned_tracked this] show ?thesis by (simp add: front_starting_def)
qed

text \<open>
  The end of the run: a status sync waits when the signal comes; \<open>Shutdown\<close> clears the status; then the
  worker takes the sync, and the process exits.
\<close>

abbreviation blank_lb :: IngressLoadBalancerIngress where
  "blank_lb \<equiv> \<lparr>IP = [], Hostname = []\<rparr>"

definition front_status :: "IngressLoadBalancerIngress \<Rightarrow> ctl_world" where
  "front_status lb =
     (ProcWorld front_running)\<lparr>MemIngresses := [front_ingress\<lparr>LoadBalancerIngress := [lb]\<rparr>]\<rparr>"

definition front_cleared :: "(Action list \<times> bool, ctl_world) process" where
  "front_cleared = front_running\<lparr>
     ProcCtl := (ProcCtl front_running)\<lparr>syncQueue := ([SyncStatusAction], False)\<rparr>, NextSync := syncInterval,
     stopChan := True, MainPc := MainForever, ProcWorld := front_status blank_lb, RunPc := RunStopCaddy\<rparr>"

definition front_exited :: "(Action list \<times> bool, ctl_world) process" where
  "front_exited = front_cleared\<lparr>
     ProcCtl := ProcCtl front_running, ProcWorld := (front_status front_lb)\<lparr>MemLoaded := None\<rparr>,
     RunPc := RunCleanUp, Outcome := Some (Exited 0)\<rparr>"

lemma front_cleared_tracked: "front_tracked front_stopping front_cleared front_cluster {}"
proof -
  let ?queued = "(ProcCtl front_running)\<lparr>syncQueue := ([SyncStatusAction], False)\<rparr>"
  let ?p1 = "front_running\<lparr>ProcCtl := ?queued, NextSync := syncInterval\<rparr>"
  let ?p2 = "?p1\<lparr>stopChan := True, MainPc := MainForever\<rparr>"
  let ?p3 = "?p2\<lparr>RunPc := RunStatuses\<rparr>"
  have "front_step front_running BySyncer ?p1"
    by (rule proc_step.syncer) (simp_all add: syncer_step_def dispatchSync_def enqueue_def front_running_def front_listed_def list_queue_def)
  note o1 = front_tracked_step [OF front_running_tracked this]
  have "front_step ?p1 ByMain ?p2"
    by (rule proc_step.main) (simp_all add: main_step_def front_running_def front_listed_def)
  note o2 = front_tracked_step [OF o1 this]
  have "front_step ?p2 ByRun ?p3"
    by (rule proc_step.run) (simp_all add: Run_step_def front_running_def front_listed_def)
  note o3 = front_tracked_step [OF o2 this]
  have "updateIngStatuses mem_ingress_client (\<lambda>jobs. jobs) [blank_lb] [front_ingress] (ProcWorld front_running) =
      ([front_ingress], front_status blank_lb)"
    using front_updated [of "ProcWorld front_running" "[]" front_ingress "[blank_lb]" blank_lb] front_sorted
    by (simp add: front_status_def front_running_def front_listed_def front_world_def)
      (simp add: front_ingress_def sample_ingress_def)
  then have "front_step ?p3 ByRun front_cleared"
    by (intro proc_step.run) (simp_all add: Run_step_def front_cleared_def front_running_def front_listed_def
        front_store_fields set_ingresses_def front_store_same front_controller_def)
  from front_tracked_step [OF o3 this] show ?thesis by (simp add: front_stopping_def)
qed

lemma front_exited_run:
  "proc_run list_queue fst front_env id front_opts front_location front_cleared [ByWorker, ByRun, ByRun] front_exited"
proof -
  let ?p5 = "front_cleared\<lparr>ProcCtl := ProcCtl front_running, ProcWorld := front_status front_lb\<rparr>"
  let ?p6 = "?p5\<lparr>ProcWorld := (front_status front_lb)\<lparr>MemLoaded := None\<rparr>, RunPc := RunCleanUp\<rparr>"
  have "processNextItem list_queue front_env (ProcCtl front_cleared) (front_status blank_lb) =
      (Ok True, ProcCtl front_running, front_status front_lb)"
    using front_synced [of "ProcCtl front_running" "front_status blank_lb" "[blank_lb]"]
    by (simp add: processNextItem_def list_queue_def front_cleared_def front_status_def front_running_def front_controller_def)
  then have s5: "front_step front_cleared ByWorker ?p5"
    by (intro proc_step.worker) (simp_all add: worker_step_def front_cleared_def front_running_def front_listed_def)
  have s6: "front_step ?p5 ByRun ?p6"
    by (rule proc_step.run) (simp_all add: Run_step_def front_cleared_def front_running_def front_listed_def)
  have s7: "front_step ?p6 ByRun front_exited"
    by (rule proc_step.run) (simp_all add: Run_step_def front_exited_def front_cleared_def front_running_def front_listed_def)
  show ?thesis
    by (rule proc_run_before [OF s5], rule proc_run_before [OF s6], rule proc_run_before [OF s7], rule proc_run.none)
qed

lemma front_running_reachable: "front_reachable front_running"
  by (rule proc_run_reachable [OF front_started tracked_run_proc_run [OF front_running_tracked]])

lemma front_cleared_run:
  "proc_run list_queue fst front_env id front_opts front_location front_start front_stopping front_cleared"
  by (rule tracked_run_proc_run [OF front_cleared_tracked])

lemma front_exited_reachable: "front_reachable front_exited"
  by (rule proc_run_reachable [OF front_started proc_run_append [OF front_cleared_run front_exited_run]])

end
