(* ===== verification/Process_Events.thy ===== *)
theory Process_Events
  imports Process_Run
begin

text \<open>
  What the process takes in: the actions its events queue, the ingresses its store can hold, that the store
  follows the cluster, by the invariant of theory \<open>Event_System\<close>, and that the worker alone catches up with it.
\<close>

section \<open>What the controller takes in\<close>

text \<open>
  The ingresses the controller is for: of its class and, if a namespace is watched, in it. And the actions
  that concern such ingresses, the controller's config map and TLS secrets of the watched namespace.
\<close>

definition own_ingress :: "Options \<Rightarrow> Ingress \<Rightarrow> bool" where
  "own_ingress opts ing \<longleftrightarrow>
     isControllerIngress (watch_params opts) ing \<and> in_namespace (WatchNamespace opts) (IngressObject ing)"

definition own_configmap :: "string \<times> string \<Rightarrow> ConfigMap \<Rightarrow> bool" where
  "own_configmap location cm \<longleftrightarrow> Name cm = snd location \<and> in_namespace (fst location) (ConfigMapObject cm)"

definition own_secret :: "Options \<Rightarrow> Secret \<Rightarrow> bool" where
  "own_secret opts s \<longleftrightarrow> SecretTypeOf s = SecretTypeTLS \<and> in_namespace (WatchNamespace opts) (SecretObject s)"

fun own_action :: "Options \<Rightarrow> string \<times> string \<Rightarrow> Action \<Rightarrow> bool" where
  "own_action opts location (IngressAddedAction ing) \<longleftrightarrow> own_ingress opts ing"
| "own_action opts location (IngressUpdatedAction ing old) \<longleftrightarrow> own_ingress opts ing"
| "own_action opts location (IngressDeletedAction ing) \<longleftrightarrow> own_ingress opts ing"
| "own_action opts location (ConfigMapAddedAction cm) \<longleftrightarrow> own_configmap location cm"
| "own_action opts location (ConfigMapUpdatedAction cm old) \<longleftrightarrow> own_configmap location cm"
| "own_action opts location (ConfigMapDeletedAction cm) \<longleftrightarrow> own_configmap location cm"
| "own_action opts location (SecretAddedAction s) \<longleftrightarrow> own_secret opts s"
| "own_action opts location (SecretUpdatedAction s old) \<longleftrightarrow> own_secret opts s"
| "own_action opts location (SecretDeletedAction s) \<longleftrightarrow> own_secret opts s"
| "own_action opts location SyncStatusAction \<longleftrightarrow> True"

text \<open>An event changes nothing, or queues one action of these.\<close>

definition queues_own :: "'q QueueOps \<Rightarrow> Options \<Rightarrow> string \<times> string \<Rightarrow> 'q CaddyController \<Rightarrow> 'q CaddyController \<Rightarrow> bool" where
  "queues_own q opts location c c' \<longleftrightarrow> c' = c \<or> (\<exists>action. own_action opts location action \<and> c' = enqueue q action c)"

lemma queues_own_same [simp]: "queues_own q opts location c c"
  and queues_own_enqueue [simp]: "own_action opts location action \<Longrightarrow> queues_own q opts location c (enqueue q action c)"
  by (auto simp: queues_own_def)

lemma as_object_Some [simp]:
  "as_ingress obj = Some ing \<longleftrightarrow> obj = IngressObject ing"
  "as_configmap obj = Some cm \<longleftrightarrow> obj = ConfigMapObject cm"
  "as_secret obj = Some s \<longleftrightarrow> obj = SecretObject s"
  by (cases obj; simp)+

lemma filtered_own:
  assumes "\<And>obj. keep obj \<Longrightarrow> delivers f (AddEvent (object obj)) \<Longrightarrow> queues_own q opts location c (AddFunc funcs obj c)"
    and "\<And>old new. keep new \<Longrightarrow> delivers f (UpdateEvent (object old) (object new)) \<Longrightarrow> queues_own q opts location c (UpdateFunc funcs old new c)"
    and "\<And>obj. keep obj \<Longrightarrow> delivers f (DeleteEvent (object obj)) \<Longrightarrow> queues_own q opts location c (DeleteFunc funcs obj c)"
    and "\<And>obj o'. as obj = Some o' \<longleftrightarrow> obj = object o'" and "delivers f e"
  shows "queues_own q opts location c (filtered as keep funcs e c)"
  using assms by (cases e) (auto split: option.split simp del: delivers.simps)

lemma ingress_events_own:
  "delivers f e \<Longrightarrow> FactoryNamespace f = WatchNamespace opts \<Longrightarrow>
     queues_own q opts location c (ingress_events q opts e c)"
  unfolding ingress_events_def WatchIngresses_def watch_params_def [symmetric]
  by (rule filtered_own [where f = f and object = IngressObject])
    (simp_all add: onIngressAdded_def onIngressUpdated_def onIngressDeleted_def own_ingress_def del: in_namespace.simps)

lemma configmap_events_own:
  "delivers f e \<Longrightarrow> FactoryNamespace f = fst location \<Longrightarrow>
     queues_own q opts location c (configmap_events q location e c)"
  unfolding configmap_events_def WatchConfigMaps_def
  by (rule filtered_own [where f = f and object = ConfigMapObject])
    (simp_all add: onConfigMapAdded_def onConfigMapUpdated_def onConfigMapDeleted_def own_configmap_def
      isControllerConfigMap_def del: in_namespace.simps)

lemma secret_events_own:
  "delivers f e \<Longrightarrow> FactoryNamespace f = WatchNamespace opts \<Longrightarrow>
     queues_own q opts location c (secret_events q e c)"
  unfolding secret_events_def WatchTLSSecrets_def
  by (rule filtered_own [where f = f and object = SecretObject])
    (simp_all add: onSecretAdded_def onSecretUpdated_def onSecretDeleted_def own_secret_def del: in_namespace.simps)

lemma own_sort_status [simp]: "own_ingress opts (sort_status ing) = own_ingress opts ing"
  by (simp add: own_ingress_def isControllerIngress_def sort_status_def Let_def)

lemma process_action_own:
  assumes "process_action env action c w = (r, c', w')" and "own_action opts location action"
    and "list_all (own_ingress opts) (Ingresses (resourceStore c))"
  shows "list_all (own_ingress opts) (Ingresses (resourceStore c'))"
proof -
  let ?s = "fold (apply_change AddIngress PluckIngress) (ingress_changes action) (resourceStore c)"
  have "\<forall>ing \<in> set (Ingresses ?s). own_ingress opts ing"
    using assms(2,3) set_PluckIngress_subset
    by (cases action) (auto simp: list_all_iff set_AddIngress)
  then have "\<forall>ing \<in> set (map sort_status (Ingresses (resourceStore c'))). own_ingress opts ing"
    unfolding process_action_store(1) [OF assms(1)] by simp
  then show ?thesis by (simp add: list_all_iff)
qed

text \<open>The invariant of the process.\<close>

definition proc_inv :: "('q \<Rightarrow> Action list) \<Rightarrow> ('q \<Rightarrow> bool) \<Rightarrow> Options \<Rightarrow> string \<times> string \<Rightarrow> ('q, 'w) process \<Rightarrow> bool" where
  "proc_inv pending down opts location \<sigma> \<longleftrightarrow>
     \<not> down (syncQueue (ProcCtl \<sigma>)) \<and> Factories \<sigma> = new_factories opts (fst location) \<and>
     list_all (own_action opts location) (pending (syncQueue (ProcCtl \<sigma>))) \<and>
     list_all (own_ingress opts) (Ingresses (resourceStore (ProcCtl \<sigma>)))"

text \<open>A step changes the controller in one of four ways: not at all, by queueing, by a turn, or by sorting statuses.\<close>

lemma Run_step_controller:
  "Run_step env CleanUpOwnLocks \<sigma> = Some \<sigma>' \<Longrightarrow>
     ProcCtl \<sigma>' = ProcCtl \<sigma> \<or>
     ProcCtl \<sigma>' = set_ingresses (map sort_status (Ingresses (resourceStore (ProcCtl \<sigma>)))) (ProcCtl \<sigma>)"
  by (auto simp: Run_step_def updateIngStatuses_def Let_def
      split: run_pc.splits option.splits if_splits prod.splits result.splits)

lemma worker_step_controller:
  "worker_step q env \<sigma> = Some \<sigma>' \<Longrightarrow>
     (if WorkerPc \<sigma> = Running
      then \<exists>r. processNextItem q env (ProcCtl \<sigma>) (ProcWorld \<sigma>) = (r, ProcCtl \<sigma>', ProcWorld \<sigma>') \<and>
        Outcome \<sigma>' = (case r of Panic p \<Rightarrow> Some (Crashed p) | _ \<Rightarrow> Outcome \<sigma>)
      else ProcCtl \<sigma>' = ProcCtl \<sigma> \<and> Outcome \<sigma>' = Outcome \<sigma>)"
  by (auto simp: worker_step_def split: goroutine.splits prod.splits result.splits bool.splits)

lemma syncer_step_controller:
  "syncer_step q env \<sigma> = Some \<sigma>' \<Longrightarrow> queues_own q opts location (ProcCtl \<sigma>) (ProcCtl \<sigma>')"
  by (auto simp: syncer_step_def dispatchSync_def split: if_splits)

lemma proc_step_Factories:
  "proc_step q pending env CleanUpOwnLocks opts location \<sigma> a \<sigma>' \<Longrightarrow> Factories \<sigma>' = Factories \<sigma>"
  by (auto elim!: proc_step.cases simp: goroutine_defs Let_def
      split: main_pc.splits run_pc.splits goroutine.splits option.splits if_splits prod.splits result.splits bool.splits)

lemma proc_step_controller:
  assumes "proc_step q pending env CleanUpOwnLocks opts location \<sigma> a \<sigma>'"
    and "Factories \<sigma> = new_factories opts (fst location)"
  obtains "queues_own q opts location (ProcCtl \<sigma>) (ProcCtl \<sigma>')"
  | r where "WorkerPc \<sigma> = Running" and "pending (syncQueue (ProcCtl \<sigma>)) \<noteq> []"
      and "processNextItem q env (ProcCtl \<sigma>) (ProcWorld \<sigma>) = (r, ProcCtl \<sigma>', ProcWorld \<sigma>')"
  | "ProcCtl \<sigma>' = set_ingresses (map sort_status (Ingresses (resourceStore (ProcCtl \<sigma>)))) (ProcCtl \<sigma>)"
  using assms(1)
proof cases
  case main
  then show thesis using that(1) by (auto simp: main_step_def split: main_pc.splits)
next
  case run
  then show thesis using that(1,3) by (auto dest!: Run_step_controller)
next
  case worker
  show thesis using worker_step_controller [OF worker(4)] worker(3) that(1,2) by (auto split: if_splits)
next
  case syncer
  then show thesis using that(1) by (blast dest: syncer_step_controller)
next
  case (ingress_event e)
  then show thesis using that(1) ingress_events_own [of _ e opts q location "ProcCtl \<sigma>"] assms(2) by (simp add: new_factories_def)
next
  case (configmap_event e)
  then show thesis using that(1) configmap_events_own [of _ e location q opts "ProcCtl \<sigma>"] assms(2) by (simp add: new_factories_def)
next
  case (secret_event e)
  then show thesis using that(1) secret_events_own [of _ e opts q location "ProcCtl \<sigma>"] assms(2) by (simp add: new_factories_def)
qed (use that(1) in simp_all)

context work_queue
begin

lemma queues_own_inv:
  assumes "queues_own q opts location c c'" and "\<not> closed (syncQueue c)"
    and "list_all (own_action opts location) (pending (syncQueue c))"
  shows "\<not> closed (syncQueue c')" and "list_all (own_action opts location) (pending (syncQueue c'))"
    and "resourceStore c' = resourceStore c"
proof -
  have "list_all (own_action opts location) (pending (syncQueue (enqueue q action c)))" if "own_action opts location action" for action
    using enqueue_queue(2) [OF assms(2), of action] that assms(3) by auto
  then show "list_all (own_action opts location) (pending (syncQueue c'))" using assms(1,3) by (auto simp: queues_own_def)
qed (use assms enqueue_queue(1) [OF assms(2)] in \<open>auto simp: queues_own_def\<close>)

lemma turn_controller:
  assumes "processNextItem q env c w = (r, c', w')" and "pending (syncQueue c) \<noteq> []"
  obtains action actions c1 s where "pending (syncQueue c) = action # actions"
    and "process_action env action c w = (r, c1, w')" and "c' = c1\<lparr>syncQueue := s\<rparr>"
    and "pending s = actions" and "closed s = closed (syncQueue c)"
proof -
  obtain action actions where waiting: "pending (syncQueue c) = action # actions"
    using assms(2) by (cases "pending (syncQueue c)") auto
  obtain r1 c1 w1 where one: "process_action env action c w = (r1, c1, w1)" by (metis prod_cases3)
  from processNextItem_pending [OF waiting one] assms(1) one waiting that show thesis by auto
qed

lemma proc_inv_step:
  assumes "proc_step q pending env CleanUpOwnLocks opts location \<sigma> a \<sigma>'" and "proc_inv pending closed opts location \<sigma>"
  shows "proc_inv pending closed opts location \<sigma>'"
proof -
  have inv: "\<not> closed (syncQueue (ProcCtl \<sigma>))" "Factories \<sigma> = new_factories opts (fst location)"
    "list_all (own_action opts location) (pending (syncQueue (ProcCtl \<sigma>)))"
    "list_all (own_ingress opts) (Ingresses (resourceStore (ProcCtl \<sigma>)))"
    using assms(2) by (simp_all add: proc_inv_def)
  have "\<not> closed (syncQueue (ProcCtl \<sigma>')) \<and> list_all (own_action opts location) (pending (syncQueue (ProcCtl \<sigma>'))) \<and>
      list_all (own_ingress opts) (Ingresses (resourceStore (ProcCtl \<sigma>')))"
  proof (rule proc_step_controller [OF assms(1) inv(2)])
    assume "queues_own q opts location (ProcCtl \<sigma>) (ProcCtl \<sigma>')"
    from queues_own_inv [OF this inv(1,3)] inv(4) show ?thesis by simp
  next
    fix r
    assume "pending (syncQueue (ProcCtl \<sigma>)) \<noteq> []"
      and "processNextItem q env (ProcCtl \<sigma>) (ProcWorld \<sigma>) = (r, ProcCtl \<sigma>', ProcWorld \<sigma>')"
    from turn_controller [OF this(2,1)] obtain action actions c1 s where
      turn: "pending (syncQueue (ProcCtl \<sigma>)) = action # actions"
      "process_action env action (ProcCtl \<sigma>) (ProcWorld \<sigma>) = (r, c1, ProcWorld \<sigma>')"
      "ProcCtl \<sigma>' = c1\<lparr>syncQueue := s\<rparr>" "pending s = actions" "closed s = closed (syncQueue (ProcCtl \<sigma>))" by blast
    with process_action_own [OF turn(2) _ inv(4), of location] inv(1,3) show ?thesis by simp
  next
    assume "ProcCtl \<sigma>' = set_ingresses (map sort_status (Ingresses (resourceStore (ProcCtl \<sigma>)))) (ProcCtl \<sigma>)"
    with inv show ?thesis by (simp add: set_ingresses_def list_all_iff)
  qed
  with proc_step_Factories [OF assms(1)] inv(2) show ?thesis by (simp add: proc_inv_def)
qed

lemma proc_inv_reachable:
  "proc_reachable q pending closed env CleanUpOwnLocks opts location \<sigma> \<Longrightarrow> proc_inv pending closed opts location \<sigma>"
proof (induction rule: proc_reachable_induct)
  case (start get podName podNs queue c w now)
  then show ?case
    by (auto simp: proc_inv_def new_process_def NewCaddyController_def NewStore_def split: result.splits)
next
  case (step \<sigma> a \<sigma>')
  from proc_inv_step [OF step(2,1)] show ?case .
qed

end

text \<open>
  C12. However the goroutines interleave, and whatever the events are, the store holds only
  ingresses that were of the controller's class and in the watched namespace when they were
  delivered, and only actions on such ingresses, on the controller's own config map and on TLS secrets of the
  watched namespace wait in the queue.
\<close>

theorem serves_only_own:
  assumes "work_queue q pending down" and "proc_reachable q pending down env CleanUpOwnLocks opts location \<sigma>"
  shows "list_all (own_ingress opts) (Ingresses (resourceStore (ProcCtl \<sigma>))) \<and>
     list_all (own_action opts location) (pending (syncQueue (ProcCtl \<sigma>)))"
  using work_queue.proc_inv_reachable [OF assms] by (simp add: proc_inv_def)

theorem serves_only_own_witness:
  "\<exists>\<sigma>. front_reachable \<sigma> \<and> Ingresses (resourceStore (ProcCtl \<sigma>)) = [front_ingress] \<and>
     list_all (own_ingress front_opts) (Ingresses (resourceStore (ProcCtl \<sigma>)))"
  using serves_only_own [OF mem_queue.work_queue_axioms front_running_reachable] front_running_reachable
  by (intro exI [of _ front_running]) (simp add: front_running_def front_store_fields)

section \<open>The process among its events\<close>

lemma sort_statuses_inv:
  assumes "ctl_inv pending down opts c m stale"
  shows "ctl_inv pending down opts (set_ingresses (map sort_status (Ingresses (resourceStore c))) c) m stale"
proof (rule ctl_inv_same_view [OF assms])
  show "canonical (held_ingresses (set_ingresses (map sort_status (Ingresses (resourceStore c))) c)) = canonical (held_ingresses c)"
    by (simp add: held_ingresses_def set_ingresses_def lookup_key_sort_status)
      (simp add: canonical_def fun_eq_iff comp_def option.map_comp)
qed (use ctl_invD(2) [OF assms] in \<open>simp_all add: set_ingresses_def comp_def\<close>)

lemma Run_step_inv:
  assumes "Run_step env CleanUpOwnLocks \<sigma> = Some \<sigma>'" and "ctl_inv pending down opts (ProcCtl \<sigma>) m stale"
  shows "ctl_inv pending down opts (ProcCtl \<sigma>') m stale"
  using Run_step_controller [OF assms(1)] sort_statuses_inv [OF assms(2)] assms(2) by auto

context work_queue
begin

lemma worker_step_inv:
  assumes "worker_step q env \<sigma> = Some \<sigma>'" and "WorkerPc \<sigma> = Running \<longrightarrow> pending (syncQueue (ProcCtl \<sigma>)) \<noteq> []"
    and "ctl_inv pending closed opts (ProcCtl \<sigma>) m stale"
  shows "ctl_inv pending closed opts (ProcCtl \<sigma>') m stale"
proof (cases "WorkerPc \<sigma> = Running")
  case True
  with worker_step_controller [OF assms(1)] obtain r where
    "processNextItem q env (ProcCtl \<sigma>) (ProcWorld \<sigma>) = (r, ProcCtl \<sigma>', ProcWorld \<sigma>')" by auto
  from turn_controller [OF this] True assms(2) obtain action actions c1 s where
    turn: "pending (syncQueue (ProcCtl \<sigma>)) = action # actions"
    "process_action env action (ProcCtl \<sigma>) (ProcWorld \<sigma>) = (r, c1, ProcWorld \<sigma>')"
    "ProcCtl \<sigma>' = c1\<lparr>syncQueue := s\<rparr>" "pending s = actions" "closed s = closed (syncQueue (ProcCtl \<sigma>))" by blast
  from inv_work [OF assms(3) turn(1,2,4,5)] turn(3) show ?thesis by simp
next
  case False
  with worker_step_controller [OF assms(1)] assms(3) show ?thesis by simp
qed

lemma other_step_inv:
  assumes "proc_step q pending env CleanUpOwnLocks opts location \<sigma> a \<sigma>'" and "\<And>e. a \<noteq> ByIngresses e"
    and "ctl_inv pending closed opts (ProcCtl \<sigma>) m stale"
  shows "ctl_inv pending closed opts (ProcCtl \<sigma>') m stale"
  using assms(1)
proof cases
  case main
  with assms(3) show ?thesis by (auto simp: main_step_def split: main_pc.splits)
next
  case run
  with Run_step_inv assms(3) show ?thesis by blast
next
  case worker
  with worker_step_inv assms(3) show ?thesis by blast
next
  case syncer
  with assms(3) inv_enqueue_other [OF assms(3), of SyncStatusAction] show ?thesis
    by (auto simp: syncer_step_def dispatchSync_def split: if_splits)
next
  case (configmap_event e)
  with assms(3) configmap_events_queue [of q location e "ProcCtl \<sigma>"] inv_enqueue_other [OF assms(3)] show ?thesis by auto
next
  case (secret_event e)
  with assms(3) secret_events_queue [of q e "ProcCtl \<sigma>"] inv_enqueue_other [OF assms(3)] show ?thesis by auto
qed (use assms(2,3) in simp_all)

lemma tracked_run_inv:
  assumes "started_process pending closed opts location \<sigma>0"
  shows "tracked_run q pending env CleanUpOwnLocks opts location \<sigma>0 actors \<sigma> m stale \<Longrightarrow>
     ctl_inv pending closed opts (ProcCtl \<sigma>) m stale"
proof (induction rule: tracked_run.induct)
  case none
  from assms show ?case by (auto simp: started_process_def new_process_def intro: inv_started)
next
  case (ingress actors \<sigma>' m stale e \<sigma>'')
  from ingress.hyps(2) have "ProcCtl \<sigma>'' = ingress_events q opts e (ProcCtl \<sigma>')" by (cases rule: proc_step.cases) simp_all
  with inv_event [OF ingress.IH] show ?case by simp
next
  case (other actors \<sigma>' m stale a \<sigma>'')
  from other_step_inv [OF other.hyps(2,3) other.IH] show ?case .
qed

end

text \<open>
  C2. The running process follows its cluster. From the start in \<open>main\<close> on, however \<open>main\<close>, \<open>Run\<close>, the informers, the timer
  and the worker interleave, whatever the events are and whatever changes outside, whenever no action waits the
  store holds each ingress once, and agrees with the cluster on every UID that is not stale: it holds the ingress in
  its last version (up to the order of the entries of its status) if it is in the cluster and of the controller's
  class, and does not hold it otherwise. A UID becomes stale only by an event that changes the controller's part of
  the cluster there and queues no action for it: an update that takes the ingress out of the class, a deletion
  reported by a tombstone or with an object out of the class, or an update that replaces the ingress by another of
  the same name; or whose action the queue drops as one that waits, while a later one on the same ingress waits too.
\<close>

theorem process_tracks_cluster:
  assumes "work_queue q pending down" and "started_process pending down opts location \<sigma>0"
    and "tracked_run q pending env CleanUpOwnLocks opts location \<sigma>0 actors \<sigma> m stale"
    and "pending (syncQueue (ProcCtl \<sigma>)) = []"
  shows "(\<forall>uid. uid \<notin> stale \<longrightarrow>
        canonical (held_ingresses (ProcCtl \<sigma>)) uid = canonical (controlled (watch_params opts) m) uid) \<and>
     distinct (map UID (Ingresses (resourceStore (ProcCtl \<sigma>))))"
  by (rule inv_settled [OF work_queue.tracked_run_inv [OF assms(1-3)] assms(4)])

theorem process_tracks_cluster_witness:
  "\<exists>actors \<sigma> m. front_tracked actors \<sigma> m {} \<and> m = [''u1'' \<mapsto> front_ingress] \<and> fst (syncQueue (ProcCtl \<sigma>)) = [] \<and>
     canonical (held_ingresses (ProcCtl \<sigma>)) = canonical (controlled (watch_params front_opts) m)"
proof -
  have "fst (syncQueue (ProcCtl front_running)) = []" by (simp add: front_running_def front_listed_def)
  with process_tracks_cluster [OF mem_queue.work_queue_axioms front_started front_running_tracked]
  have "canonical (held_ingresses (ProcCtl front_running)) = canonical (controlled (watch_params front_opts) front_cluster)"
    by (simp add: fun_eq_iff)
  with front_running_tracked \<open>fst (syncQueue (ProcCtl front_running)) = []\<close> show ?thesis by blast
qed

section \<open>The worker alone\<close>

lemma worker_deterministic:
  assumes "proc_step q pending env CleanUpOwnLocks opts location \<sigma> ByWorker \<sigma>1"
    and "proc_step q pending env CleanUpOwnLocks opts location \<sigma> ByWorker \<sigma>2"
  shows "\<sigma>1 = \<sigma>2"
  using assms by (auto elim!: proc_step.cases)

lemma worker_turn:
  assumes "work_queue q pending down" and "caddy_controller env loaded files iter iter'"
    and "Outcome \<sigma> = None" and "WorkerPc \<sigma> = Running" and "pending (syncQueue (ProcCtl \<sigma>)) = action # actions"
    and "wf_store (resourceStore (ProcCtl \<sigma>))" and "benign action"
  obtains \<sigma>' where "proc_step q pending env CleanUpOwnLocks opts location \<sigma> ByWorker \<sigma>'" and "Outcome \<sigma>' = None"
    and "WorkerPc \<sigma>' = Running" and "pending (syncQueue (ProcCtl \<sigma>')) = actions" and "wf_store (resourceStore (ProcCtl \<sigma>'))"
proof -
  obtain r c1 w1 where one: "process_action env action (ProcCtl \<sigma>) (ProcWorld \<sigma>) = (r, c1, w1)" by (metis prod_cases3)
  have wf: "wf_store (resourceStore c1)" by (rule process_action_wf_store [OF one assms(7,6)])
  have "r = Ok True"
    using controller_world.process_action_panics [OF caddy_controller.axioms(1) [OF assms(2)] one]
      caddy_controller.convert_wf [OF assms(2) wf] by auto
  with work_queue.processNextItem_pending [OF assms(1,5) one] obtain s where
    item: "processNextItem q env (ProcCtl \<sigma>) (ProcWorld \<sigma>) = (Ok True, c1\<lparr>syncQueue := s\<rparr>, w1)" "pending s = actions"
    by blast
  let ?\<sigma>' = "\<sigma>\<lparr>ProcCtl := c1\<lparr>syncQueue := s\<rparr>, ProcWorld := w1\<rparr>"
  have "proc_step q pending env CleanUpOwnLocks opts location \<sigma> ByWorker ?\<sigma>'"
    by (rule proc_step.worker [OF assms(3)]) (use assms(4,5) item(1) in \<open>simp_all add: worker_step_def\<close>)
  with that [of ?\<sigma>'] assms(3,4) item(2) wf show thesis by simp
qed

lemma worker_drains:
  assumes "work_queue q pending down" and "caddy_controller env loaded files iter iter'"
    and "Outcome \<sigma> = None" and "WorkerPc \<sigma> = Running"
    and "wf_store (resourceStore (ProcCtl \<sigma>))" and "list_all benign (pending (syncQueue (ProcCtl \<sigma>)))"
  shows "\<exists>\<sigma>'. (\<forall>\<tau>. proc_run q pending env CleanUpOwnLocks opts location \<sigma>
        (replicate (length (pending (syncQueue (ProcCtl \<sigma>)))) ByWorker) \<tau> \<longleftrightarrow> \<tau> = \<sigma>') \<and>
     Outcome \<sigma>' = None \<and> pending (syncQueue (ProcCtl \<sigma>')) = []"
  using assms(3-6)
proof (induction "pending (syncQueue (ProcCtl \<sigma>))" arbitrary: \<sigma>)
  case Nil
  then show ?case by auto
next
  case (Cons action actions)
  note waiting = Cons.hyps(2) [symmetric]
  have "benign action" using Cons.prems(4) waiting by simp
  from worker_turn [OF assms(1,2) Cons.prems(1,2) waiting Cons.prems(3) this] obtain \<sigma>1 where
    one: "proc_step q pending env CleanUpOwnLocks opts location \<sigma> ByWorker \<sigma>1" "Outcome \<sigma>1 = None" "WorkerPc \<sigma>1 = Running"
    "pending (syncQueue (ProcCtl \<sigma>1)) = actions" "wf_store (resourceStore (ProcCtl \<sigma>1))" by blast
  with Cons.hyps(1) [of \<sigma>1] Cons.prems(4) waiting obtain \<sigma>' where
    rest: "\<forall>\<tau>. proc_run q pending env CleanUpOwnLocks opts location \<sigma>1 (replicate (length actions) ByWorker) \<tau> \<longleftrightarrow> \<tau> = \<sigma>'"
    "Outcome \<sigma>' = None" "pending (syncQueue (ProcCtl \<sigma>')) = []" by auto
  have "proc_run q pending env CleanUpOwnLocks opts location \<sigma> (ByWorker # replicate (length actions) ByWorker) \<tau> \<longleftrightarrow> \<tau> = \<sigma>'" for \<tau>
    unfolding proc_run_Cons using one(1) rest(1) worker_deterministic [OF one(1)] by blast
  with rest(2,3) waiting show ?case by (intro exI [of _ \<sigma>']) simp
qed

lemma tracked_run_worker:
  assumes "proc_run q pending env CleanUpOwnLocks opts location \<sigma> workers \<sigma>'" and "set workers \<subseteq> {ByWorker}"
    and "tracked_run q pending env CleanUpOwnLocks opts location \<sigma>0 actors \<sigma> m stale"
  shows "tracked_run q pending env CleanUpOwnLocks opts location \<sigma>0 (actors @ workers) \<sigma>' m stale"
  using assms(1,2)
proof (induction rule: proc_run.induct)
  case none
  with assms(3) show ?case by simp
next
  case (more workers \<tau> a \<tau>')
  from tracked_run.other [OF more.IH more.hyps(2)] more.prems show ?case by simp
qed

text \<open>
  C16. The worker catches up alone. From every state of a running process in which the worker runs, the stored
  ingresses are convertible and no crashing action waits, as many steps of the worker as actions wait, with no other
  step in between, are possible, have one outcome, and lead to a state in which the process still runs, no action
  waits and the store agrees with the cluster on every UID that is not stale.
\<close>

theorem worker_catches_up:
  assumes "work_queue q pending down" and "caddy_controller env loaded files iter iter'"
    and "started_process pending down opts location \<sigma>0"
    and "tracked_run q pending env CleanUpOwnLocks opts location \<sigma>0 actors \<sigma> m stale"
    and "Outcome \<sigma> = None" and "WorkerPc \<sigma> = Running"
    and "wf_store (resourceStore (ProcCtl \<sigma>))" and "list_all benign (pending (syncQueue (ProcCtl \<sigma>)))"
  shows "\<exists>\<sigma>'. (\<forall>\<tau>. proc_run q pending env CleanUpOwnLocks opts location \<sigma>
        (replicate (length (pending (syncQueue (ProcCtl \<sigma>)))) ByWorker) \<tau> \<longleftrightarrow> \<tau> = \<sigma>') \<and>
     Outcome \<sigma>' = None \<and> pending (syncQueue (ProcCtl \<sigma>')) = [] \<and>
     (\<forall>uid. uid \<notin> stale \<longrightarrow>
        canonical (held_ingresses (ProcCtl \<sigma>')) uid = canonical (controlled (watch_params opts) m) uid)"
proof -
  let ?workers = "replicate (length (pending (syncQueue (ProcCtl \<sigma>)))) ByWorker"
  from worker_drains [OF assms(1,2,5-8)] obtain \<sigma>' where
    run: "\<forall>\<tau>. proc_run q pending env CleanUpOwnLocks opts location \<sigma> ?workers \<tau> \<longleftrightarrow> \<tau> = \<sigma>'"
    and ends: "Outcome \<sigma>' = None" "pending (syncQueue (ProcCtl \<sigma>')) = []" by blast
  have "tracked_run q pending env CleanUpOwnLocks opts location \<sigma>0 (actors @ ?workers) \<sigma>' m stale"
    by (rule tracked_run_worker [OF _ _ assms(4)]) (use run in auto)
  from inv_settled [OF work_queue.tracked_run_inv [OF assms(1,3) this] ends(2)] run ends show ?thesis by blast
qed

text \<open>The process with the ingress listed and not yet stored.\<close>

theorem worker_catches_up_witness:
  "\<exists>\<sigma> \<sigma>'. front_tracked (front_listing @ [ByRun, ByRun, ByWorker]) \<sigma> front_cluster {} \<and>
     proc_run list_queue fst front_env id front_opts front_location \<sigma> [ByWorker] \<sigma>' \<and> fst (syncQueue (ProcCtl \<sigma>')) = [] \<and>
     canonical (held_ingresses (ProcCtl \<sigma>')) = canonical (controlled (watch_params front_opts) front_cluster)"
proof -
  let ?\<sigma> = "front_listed\<lparr>WorkerPc := Running, SyncerPc := Started, RunPc := RunStopped\<rparr>"
  have fields: "Outcome ?\<sigma> = None" "WorkerPc ?\<sigma> = Running" "fst (syncQueue (ProcCtl ?\<sigma>)) = [IngressAddedAction front_ingress]"
    "wf_store (resourceStore (ProcCtl ?\<sigma>))" "list_all benign (fst (syncQueue (ProcCtl ?\<sigma>)))"
    by (simp_all add: front_listed_def front_controller_def wf_store_def NewStore_def benign_def wf_ingress_def
        front_ingress_def sample_ingress_def)
  from worker_catches_up [OF mem_queue.work_queue_axioms front.caddy_controller_axioms front_started front_spawned_tracked fields(1,2,4,5)]
  obtain \<sigma>' where run: "\<forall>\<tau>. proc_run list_queue fst front_env id front_opts front_location ?\<sigma>
      (replicate (length (fst (syncQueue (ProcCtl ?\<sigma>)))) ByWorker) \<tau> \<longleftrightarrow> \<tau> = \<sigma>'"
    and ends: "fst (syncQueue (ProcCtl \<sigma>')) = []"
      "\<forall>uid. canonical (held_ingresses (ProcCtl \<sigma>')) uid = canonical (controlled (watch_params front_opts) front_cluster) uid"
    by auto
  have "proc_run list_queue fst front_env id front_opts front_location ?\<sigma> [ByWorker] \<sigma>'"
    using run [unfolded fields(3)] by simp
  with front_spawned_tracked ends show ?thesis by blast
qed

end
