(* ===== verification/Lifecycle.thy ===== *)
theory Lifecycle
  imports Process_Events
begin

text \<open>
  The life of the process: what \<open>main\<close> starts, what happens before the caches have synced, how a signal
  ends the process, in which ways it can end at all, and what its worker still does at the end.
\<close>

section \<open>From the command line to the process\<close>

text \<open>
  C33. When \<open>main\<close> gets to start the process, the flags were read, the API server has answered with its
  version, the logger has the level of the flags, and the process starts fresh: its controller has the
  options of the flags, no ingress and no applied configuration, and everything shown of the reachable
  processes with these options holds of it from then on.
\<close>

theorem main_starts_process:
  assumes "backoff_api backoff" and "pending queue = []" and "\<not> down queue"
    and "main_process args buildConfig newForConfig serverVersion backoff pods kubeconfig podName podNs queue api w now =
      Ok (level, location, \<sigma>)"
  shows "\<exists>opts k v. parseFlags args = Ok opts \<and>
     fst (createApiserverClient buildConfig newForConfig serverVersion backoff kubeconfig api) = (Some k, Some v, None) \<and>
     level = (if Verbose opts then DebugLevel else ProductionLevel) \<and>
     proc_reachable q pending down env CleanUpOwnLocks opts location \<sigma> \<and>
     StoreOptions (resourceStore (ProcCtl \<sigma>)) = opts \<and> Ingresses (resourceStore (ProcCtl \<sigma>)) = [] \<and>
     lastAppliedConfig (ProcCtl \<sigma>) = []"
proof -
  from assms(4) obtain c where
    start: "main_start args buildConfig newForConfig serverVersion backoff pods kubeconfig podName podNs queue api = Ok (c, location)"
    and level: "level = createLogger (Verbose (StoreOptions (resourceStore c)))"
    and \<sigma>: "\<sigma> = new_process (StoreOptions (resourceStore c)) c location w now"
    by (auto simp: main_process_def Let_def)
  from main_start_fresh [OF assms(1) start] obtain opts k v pod where fresh: "parseFlags args = Ok opts"
    "fst (createApiserverClient buildConfig newForConfig serverVersion backoff kubeconfig api) = (Some k, Some v, None)"
    "NewCaddyController (pods (Some k)) podName podNs queue opts = Ok (c, location)"
    "c = \<lparr>resourceStore = NewStore opts (fst location) pod, syncQueue = queue, tlsInformer = False, lastAppliedConfig = []\<rparr>"
    by blast
  then have opts: "StoreOptions (resourceStore c) = opts" by (simp add: NewStore_def)
  with \<sigma> fresh(3) assms(2,3) have "proc_reachable q pending down env CleanUpOwnLocks opts location \<sigma>"
    unfolding proc_reachable_def by (blast intro: proc_run.none)
  with fresh opts level \<sigma> show ?thesis
    by (auto simp: createLogger_def new_process_def NewStore_def)
qed

theorem main_starts_process_witness:
  "\<exists>level location \<sigma>. main_process [''-config-map=ns/cm'', ''-verbose''] (\<lambda>k. Inr \<lparr>QPS = 0, Burst = 0, ContentType = []\<rparr>)
      (\<lambda>cfg. Inr (Burst cfg))
      (\<lambda>client n. (if n < (3::nat) then Inl (ErrorString ''refused'') else Inr ''v1'', Suc n)) retry_backoff
      (\<lambda>client ns n. None) [] [] [] ([] :: Action list, False) 0 empty_world 0 = Ok (level, location, \<sigma>) \<and>
    level = DebugLevel \<and> Ingresses (resourceStore (ProcCtl \<sigma>)) = []"
proof -
  let ?args = "[''-config-map=ns/cm'', ''-verbose'']"
  let ?build = "\<lambda>k. Inr \<lparr>QPS = 0, Burst = 0, ContentType = []\<rparr>"
  let ?request = "\<lambda>client n. (if n < (3::nat) then Inl (ErrorString ''refused'') else Inr ''v1'', Suc n)"
  obtain opts where opts: "parseFlags ?args = Ok opts" "ConfigMapName opts = ''ns/cm''" "Verbose opts"
    by (simp add: parseFlags_def flag_body_def Contains_def lookup_flag_def defaultFlags_def)
  have "first_version (answers 10 (?request highBurst) 0) = Some ''v1''"
    by (simp add: first_version_def eval_nat_numeral)
  then have "fst (createApiserverClient ?build (\<lambda>cfg. Inr (Burst cfg)) ?request retry_backoff [] 0) =
      (Some highBurst, Some ''v1'', None)"
    using retry.createApiserverClient_connects [of ?build "[]" "\<lparr>QPS = 0, Burst = 0, ContentType = []\<rparr>"
        "\<lambda>cfg. Inr (Burst cfg)" highBurst ?request 0] by simp
  moreover obtain answer n where "createApiserverClient ?build (\<lambda>cfg. Inr (Burst cfg)) ?request retry_backoff [] 0 = (answer, n)"
    by (meson surj_pair)
  ultimately have api: "createApiserverClient ?build (\<lambda>cfg. Inr (Burst cfg)) ?request retry_backoff [] 0 =
      ((Some highBurst, Some ''v1'', None), n)" by simp
  have same: "(if WatchNamespace opts = [] then opts\<lparr>WatchNamespace := NamespaceAll\<rparr> else opts) = opts"
    by (simp add: NamespaceAll_def)
  obtain c where new: "NewCaddyController (\<lambda>ns n. None) [] [] ([] :: Action list, False) opts = Ok (c, ''ns'', ''cm'')"
    using opts(2) by (auto simp: NewCaddyController_def GetPodDetails_def config_map_location_def SplitN2_def Contains_def)
  obtain level location \<sigma> where run: "main_process ?args ?build (\<lambda>cfg. Inr (Burst cfg)) ?request
      retry_backoff (\<lambda>client ns n. None) [] [] [] ([] :: Action list, False) 0 empty_world 0 = Ok (level, location, \<sigma>)"
    by (auto simp: main_process_def main_start_def opts(1) api same new Let_def simp del: bind_result_eq_Ok)
  have "level = (if Verbose opts then DebugLevel else ProductionLevel) \<and> Ingresses (resourceStore (ProcCtl \<sigma>)) = []"
    using main_starts_process [where pending = fst and down = snd and q = list_queue and env = mem_controller and
        CleanUpOwnLocks = id, OF retry.backoff_api_axioms _ _ run] opts(1) by auto
  with opts(3) run show ?thesis by auto
qed

section \<open>Nothing is handled before the caches have synced\<close>

definition caches_synced :: "('q, 'w) process \<Rightarrow> bool" where
  "caches_synced \<sigma> \<longleftrightarrow> HasSynced (ConfigMapInformer (Informers \<sigma>)) \<and> HasSynced (IngressInformer (Informers \<sigma>))"

text \<open>
  The worker loops only if the caches have synced: when \<open>Run\<close> gives up waiting for them, the stop
  channel is closed, and the worker returns at once.
\<close>

definition sync_inv :: "Options \<Rightarrow> ('q, 'w) process \<Rightarrow> bool" where
  "sync_inv opts \<sigma> \<longleftrightarrow>
     (WorkerPc \<sigma> = Running \<longrightarrow> caches_synced \<sigma>) \<and>
     (RunPc \<sigma> \<in> {RunStart, RunSync} \<or> caches_synced \<sigma> \<or> stopChan \<sigma>) \<and>
     (RunPc \<sigma> \<in> {RunStart, RunSync, RunSpawn} \<longrightarrow> WorkerPc \<sigma> = NotStarted) \<and>
     (caches_synced \<sigma> \<or> Ingresses (resourceStore (ProcCtl \<sigma>)) = [] \<and>
        StoreConfigMap (resourceStore (ProcCtl \<sigma>)) = Some zeroConfigMapOptions \<and>
        \<not> tlsInformer (ProcCtl \<sigma>) \<and> lastAppliedConfig (ProcCtl \<sigma>) = [])"

lemma proc_step_pcs:
  assumes "proc_step q pending env CleanUpOwnLocks opts location \<sigma> a \<sigma>'"
  shows "caches_synced \<sigma> \<Longrightarrow> caches_synced \<sigma>'" and "stopChan \<sigma> \<Longrightarrow> stopChan \<sigma>'"
    and "RunPc \<sigma>' = RunPc \<sigma> \<or> a = ByRun"
  using assms by (auto elim!: proc_step.cases simp: goroutine_defs Let_def caches_synced_def
      split: main_pc.splits run_pc.splits goroutine.splits option.splits if_splits prod.splits result.splits bool.splits)

lemma other_step_worker:
  assumes "proc_step q pending env CleanUpOwnLocks opts location \<sigma> a \<sigma>'" and "a \<noteq> ByRun"
  shows "WorkerPc \<sigma>' = WorkerPc \<sigma> \<or> WorkerPc \<sigma> = Running \<or>
     WorkerPc \<sigma> = Started \<and> WorkerPc \<sigma>' = (if EnvUntil env (stopChan \<sigma>) then Running else Returned)"
  using assms by (auto elim!: proc_step.cases simp: main_step_def worker_step_def syncer_step_def
      split: main_pc.splits goroutine.splits if_splits prod.splits result.splits bool.splits)

lemma sync_inv_pcs:
  assumes go: "client_go env" and "proc_step q pending env CleanUpOwnLocks opts location \<sigma> a \<sigma>'" and "sync_inv opts \<sigma>"
  shows "(WorkerPc \<sigma>' = Running \<longrightarrow> caches_synced \<sigma>') \<and>
     (RunPc \<sigma>' \<in> {RunStart, RunSync} \<or> caches_synced \<sigma>' \<or> stopChan \<sigma>') \<and>
     (RunPc \<sigma>' \<in> {RunStart, RunSync, RunSpawn} \<longrightarrow> WorkerPc \<sigma>' = NotStarted)"
proof (cases "a = ByRun")
  case True
  with assms(2) have "Run_step env CleanUpOwnLocks \<sigma> = Some \<sigma>'" by (auto elim: proc_step.cases)
  with assms(3) show ?thesis
    by (cases "RunPc \<sigma>") (auto simp: sync_inv_def Run_step_def caches_synced_def Let_def
        dest!: client_go.sync_result [OF go] split: if_splits option.splits prod.splits result.splits)
next
  case False
  from other_step_worker [OF assms(2) this] other_step_left [OF assms(2) this] proc_step_pcs(1) [OF assms(2)] assms(3)
  show ?thesis unfolding sync_inv_def by (auto simp: client_go.until_open [OF go] split: if_splits)
qed

lemma sync_inv_step:
  assumes "client_go env" and "proc_step q pending env CleanUpOwnLocks opts location \<sigma> a \<sigma>'" and "sync_inv opts \<sigma>"
    and "Factories \<sigma> = new_factories opts (fst location)"
  shows "sync_inv opts \<sigma>'"
proof (cases "caches_synced \<sigma>")
  case True
  with proc_step_pcs(1) [OF assms(2)] sync_inv_pcs [OF assms(1,2,3)] show ?thesis by (simp add: sync_inv_def)
next
  case False
  with assms(3) have fresh: "Ingresses (resourceStore (ProcCtl \<sigma>)) = []"
    "StoreConfigMap (resourceStore (ProcCtl \<sigma>)) = Some zeroConfigMapOptions"
    "\<not> tlsInformer (ProcCtl \<sigma>)" "lastAppliedConfig (ProcCtl \<sigma>) = []" and idle: "WorkerPc \<sigma> \<noteq> Running"
    by (auto simp: sync_inv_def)
  have "Ingresses (resourceStore (ProcCtl \<sigma>')) = [] \<and> StoreConfigMap (resourceStore (ProcCtl \<sigma>')) = Some zeroConfigMapOptions \<and>
      \<not> tlsInformer (ProcCtl \<sigma>') \<and> lastAppliedConfig (ProcCtl \<sigma>') = []"
    by (rule proc_step_controller [OF assms(2,4)])
      (use fresh idle in \<open>auto simp: queues_own_def set_ingresses_def enqueue_def\<close>)
  with sync_inv_pcs [OF assms(1,2,3)] show ?thesis by (simp add: sync_inv_def)
qed

lemma sync_inv_reachable:
  assumes "client_go env" and "proc_reachable q pending down env CleanUpOwnLocks opts location \<sigma>"
  shows "sync_inv opts \<sigma> \<and> Factories \<sigma> = new_factories opts (fst location)"
  using assms(2)
proof (induction rule: proc_reachable_induct)
  case (start get podName podNs queue c w now)
  then show ?case
    by (auto simp: sync_inv_def caches_synced_def new_process_def NewCaddyController_def NewStore_def split: result.splits)
next
  case (step \<sigma> a \<sigma>')
  with sync_inv_step [OF assms(1) step(2)] proc_step_Factories [OF step(2)] show ?case by simp
qed

text \<open>
  C9. No action is handled before the caches of both informers have synced. Until then the worker
  does not run, the store has no ingress and the options of a new store, and no configuration has been
  applied: Caddy is never given a configuration made from a part of the cluster's first listing
  while the rest has not been read. It also holds when \<open>Run\<close> gives up waiting.
\<close>

theorem nothing_before_sync:
  assumes "client_go env" and "proc_reachable q pending down env CleanUpOwnLocks opts location \<sigma>" and "\<not> caches_synced \<sigma>"
  shows "WorkerPc \<sigma> \<noteq> Running \<and> Ingresses (resourceStore (ProcCtl \<sigma>)) = [] \<and>
     StoreConfigMap (resourceStore (ProcCtl \<sigma>)) = Some zeroConfigMapOptions \<and> lastAppliedConfig (ProcCtl \<sigma>) = []"
  using sync_inv_reachable [OF assms(1,2)] assms(3) by (auto simp: sync_inv_def)

theorem nothing_before_sync_witness:
  "Ingresses (resourceStore (ProcCtl (new_process front_opts front_controller front_location front_world 0))) = []"
proof -
  let ?p = "new_process front_opts front_controller front_location front_world 0"
  have "front_reachable ?p" using proc_run_reachable [OF front_started proc_run.none] by (simp add: front_start_def)
  moreover have "\<not> caches_synced ?p" by (simp add: caches_synced_def new_process_def)
  ultimately show ?thesis using nothing_before_sync [OF front_go.client_go_axioms] by blast
qed

section \<open>The end of the process\<close>

text \<open>The steps \<open>Run\<close> still has to take once the stop channel is closed.\<close>

fun run_left :: "run_pc \<Rightarrow> nat" where
  "run_left RunStart = 7"
| "run_left RunSync = 6"
| "run_left RunSpawn = 5"
| "run_left RunStopped = 4"
| "run_left RunStatuses = 3"
| "run_left RunStopCaddy = 2"
| "run_left RunCleanUp = 1"

lemma Run_step_left:
  "Run_step env CleanUpOwnLocks \<sigma> = Some \<sigma>' \<Longrightarrow>
     stopChan \<sigma>' = stopChan \<sigma> \<and> (Outcome \<sigma>' = Outcome \<sigma> \<and> Suc (run_left (RunPc \<sigma>')) = run_left (RunPc \<sigma>) \<or> Outcome \<sigma>' \<noteq> None)"
  by (auto simp: Run_step_def Let_def split: run_pc.splits option.splits if_splits prod.splits result.splits)

lemma Run_step_enabled: "client_go env \<Longrightarrow> stopChan \<sigma> \<Longrightarrow> \<exists>\<sigma>'. Run_step env CleanUpOwnLocks \<sigma> = Some \<sigma>'"
  using client_go.stopped_sync [of env "[HasSynced (ConfigMapInformer (Informers \<sigma>)), HasSynced (IngressInformer (Informers \<sigma>))]"]
  by (auto simp: Run_step_def Let_def split: run_pc.split option.split prod.split result.split)

text \<open>The steps of \<open>Run\<close> after the signal, in any run.\<close>

lemma stopped_run:
  assumes "proc_run q pending env CleanUpOwnLocks opts location \<sigma> actors \<sigma>'" and "stopChan \<sigma>" and "Outcome \<sigma> = None"
  shows "stopChan \<sigma>' \<and>
    (if Outcome \<sigma>' = None then count_list actors ByRun + run_left (RunPc \<sigma>') = run_left (RunPc \<sigma>)
     else count_list actors ByRun \<le> run_left (RunPc \<sigma>))"
  using assms
proof (induction rule: proc_run.induct)
  case none
  then show ?case by simp
next
  case (more actors \<sigma>1 a \<sigma>2)
  note IH = more.IH [OF more.prems]
  from more.hyps(2) have live: "Outcome \<sigma>1 = None" by (auto elim: proc_step.cases)
  have pos: "0 < run_left pc" for pc by (cases pc) simp_all
  show ?case
  proof (cases "a = ByRun")
    case True
    with more.hyps(2) have "Run_step env CleanUpOwnLocks \<sigma>1 = Some \<sigma>2" by (auto elim: proc_step.cases)
    from Run_step_left [OF this] IH live True pos [of "RunPc \<sigma>1"] show ?thesis by auto
  next
    case False
    with other_step_left [OF more.hyps(2)] IH live show ?thesis by auto
  qed
qed

text \<open>\<open>Run\<close> on its own, for a number of steps.\<close>

fun Run_alone :: "'w ControllerEnv \<Rightarrow> ('w \<Rightarrow> 'w) \<Rightarrow> nat \<Rightarrow> ('q, 'w) process \<Rightarrow> ('q, 'w) process" where
  "Run_alone env CleanUpOwnLocks 0 \<sigma> = \<sigma>"
| "Run_alone env CleanUpOwnLocks (Suc n) \<sigma> =
     (if Outcome \<sigma> \<noteq> None then \<sigma>
      else case Run_step env CleanUpOwnLocks \<sigma> of None \<Rightarrow> \<sigma> | Some \<sigma>' \<Rightarrow> Run_alone env CleanUpOwnLocks n \<sigma>')"

lemma Run_alone_run:
  "\<exists>actors. proc_run q pending env CleanUpOwnLocks opts location \<sigma> actors (Run_alone env CleanUpOwnLocks n \<sigma>)"
proof (induction n arbitrary: \<sigma>)
  case 0
  then show ?case by (auto intro: proc_run.none)
next
  case (Suc n)
  show ?case
  proof (cases "Outcome \<sigma> = None \<and> Run_step env CleanUpOwnLocks \<sigma> \<noteq> None")
    case True
    then obtain \<sigma>' where step: "Run_step env CleanUpOwnLocks \<sigma> = Some \<sigma>'" by blast
    with True have "proc_step q pending env CleanUpOwnLocks opts location \<sigma> ByRun \<sigma>'" by (auto intro: proc_step.run)
    moreover obtain actors where
      "proc_run q pending env CleanUpOwnLocks opts location \<sigma>' actors (Run_alone env CleanUpOwnLocks n \<sigma>')"
      using Suc.IH by blast
    ultimately show ?thesis using True step by (auto dest: proc_run_before)
  qed (auto intro: exI [of _ "[]"] proc_run.none split: option.split)
qed


text \<open>What \<open>Run_exit\<close> returns is how the process ends.\<close>

fun exit_outcome :: "int result \<Rightarrow> outcome option" where
  "exit_outcome (Ok code) = Some (Exited code)"
| "exit_outcome (Panic p) = Some (Crashed p)"
| "exit_outcome (Err e) = None"

lemma Run_step_before_shutdown:
  assumes "client_go env" and "stopChan \<sigma>" and "3 < run_left (RunPc \<sigma>)"
  shows "\<exists>\<sigma>'. Run_step env CleanUpOwnLocks \<sigma> = Some \<sigma>' \<and> ProcCtl \<sigma>' = ProcCtl \<sigma> \<and> ProcWorld \<sigma>' = ProcWorld \<sigma> \<and>
     Outcome \<sigma>' = Outcome \<sigma> \<and> stopChan \<sigma>' \<and> Suc (run_left (RunPc \<sigma>')) = run_left (RunPc \<sigma>)"
  using assms(2,3) client_go.stopped_sync [OF assms(1)] by (cases "RunPc \<sigma>") (auto simp: Run_step_def split: option.split)

lemma Run_alone_exits:
  assumes go: "client_go env" and "stopChan \<sigma>" and "Outcome \<sigma> = None" and "3 \<le> run_left (RunPc \<sigma>)"
    and "run_left (RunPc \<sigma>) \<le> n"
  shows "Outcome (Run_alone env CleanUpOwnLocks n \<sigma>) =
      exit_outcome (fst (Run_exit env CleanUpOwnLocks (ProcCtl \<sigma>) (ProcWorld \<sigma>))) \<and>
    ProcWorld (Run_alone env CleanUpOwnLocks n \<sigma>) = snd (Run_exit env CleanUpOwnLocks (ProcCtl \<sigma>) (ProcWorld \<sigma>))"
  using assms(2-)
proof (induction n arbitrary: \<sigma>)
  case 0
  then show ?case by simp
next
  case (Suc n)
  show ?case
  proof (cases "3 < run_left (RunPc \<sigma>)")
    case True
    from Run_step_before_shutdown [OF go Suc.prems(1) this, of CleanUpOwnLocks] obtain \<sigma>' where
      step: "Run_step env CleanUpOwnLocks \<sigma> = Some \<sigma>'" "ProcCtl \<sigma>' = ProcCtl \<sigma>" "ProcWorld \<sigma>' = ProcWorld \<sigma>"
      "Outcome \<sigma>' = Outcome \<sigma>" "stopChan \<sigma>'" "Suc (run_left (RunPc \<sigma>')) = run_left (RunPc \<sigma>)" by blast
    with Suc.IH [of \<sigma>'] Suc.prems True show ?thesis by simp
  next
    case False
    with Suc.prems(3) have pc: "RunPc \<sigma> = RunStatuses" by (cases "RunPc \<sigma>") simp_all
    with Suc.prems have "2 \<le> n" by simp
    then obtain m where "n = Suc (Suc m)" by (metis add_2_eq_Suc le_Suc_ex)
    with pc Suc.prems show ?thesis
      by (cases m) (auto simp: Run_step_def Run_exit_def Shutdown_def Let_def split: prod.split result.split)
  qed
qed

text \<open>
  C10. A signal ends the process. Once the stop channel is closed \<open>Run\<close> never waits again and takes
  at most seven more steps, whatever the other goroutines do and even when the caches have never
  synced; and when it takes them undisturbed, the statuses are cleared, Caddy is stopped, the locks
  are released and the process exits as \<open>Run_exit\<close> says.
\<close>

theorem signal_ends_process:
  assumes "client_go env" and "proc_run q pending env CleanUpOwnLocks opts location \<sigma> actors \<sigma>'" and "stopChan \<sigma>" and "Outcome \<sigma> = None"
  shows "count_list actors ByRun \<le> 7 \<and>
    (Outcome \<sigma>' \<noteq> None \<or> (\<exists>\<sigma>''. proc_step q pending env CleanUpOwnLocks opts location \<sigma>' ByRun \<sigma>'')) \<and>
    (RunPc \<sigma> \<in> {RunStopCaddy, RunCleanUp} \<or>
     (Outcome (Run_alone env CleanUpOwnLocks 7 \<sigma>), ProcWorld (Run_alone env CleanUpOwnLocks 7 \<sigma>)) =
       map_prod exit_outcome id (Run_exit env CleanUpOwnLocks (ProcCtl \<sigma>) (ProcWorld \<sigma>)))"
proof (intro conjI)
  note stopped = stopped_run [OF assms(2-)]
  have seven: "run_left pc \<le> 7" for pc by (cases pc) simp_all
  have small: "run_left pc < 3 \<longleftrightarrow> pc \<in> {RunStopCaddy, RunCleanUp}" for pc by (cases pc) simp_all
  from stopped seven [of "RunPc \<sigma>"] show "count_list actors ByRun \<le> 7" by (simp split: if_splits)
  from stopped Run_step_enabled [OF assms(1), of \<sigma>' CleanUpOwnLocks]
  show "Outcome \<sigma>' \<noteq> None \<or> (\<exists>\<sigma>''. proc_step q pending env CleanUpOwnLocks opts location \<sigma>' ByRun \<sigma>'')"
    by (cases "Outcome \<sigma>'") (auto intro: proc_step.run)
  show "RunPc \<sigma> \<in> {RunStopCaddy, RunCleanUp} \<or>
     (Outcome (Run_alone env CleanUpOwnLocks 7 \<sigma>), ProcWorld (Run_alone env CleanUpOwnLocks 7 \<sigma>)) =
       map_prod exit_outcome id (Run_exit env CleanUpOwnLocks (ProcCtl \<sigma>) (ProcWorld \<sigma>))"
    using Run_alone_exits [OF assms(1,3,4) _ seven, of CleanUpOwnLocks] small [of "RunPc \<sigma>"]
    by (metis fst_map_prod id_apply not_less prod.collapse snd_map_prod)
qed

theorem signal_ends_process_witness:
  "Outcome (Run_alone front_env id 7 (front_running\<lparr>stopChan := True\<rparr>)) = Some (Exited 0)"
proof -
  let ?p = "front_running\<lparr>stopChan := True\<rparr>"
  have "stopChan ?p" "Outcome ?p = None" "RunPc ?p \<notin> {RunStopCaddy, RunCleanUp}"
    by (simp_all add: front_running_def front_listed_def)
  moreover have "fst (Run_exit front_env id (ProcCtl ?p) (ProcWorld ?p)) = Ok 0"
    by (simp add: Run_exit_def Shutdown_def split: prod.split)
  ultimately show ?thesis
    using signal_ends_process [OF front_go.client_go_axioms proc_run.none, of ?p list_queue fst id front_opts front_location]
    by (metis exit_outcome.simps(1) fst_conv fst_map_prod)
qed

section \<open>How the process ends\<close>

definition ends_well :: "'w ControllerEnv \<Rightarrow> ('q, 'w) process \<Rightarrow> bool" where
  "ends_well env \<sigma> \<longleftrightarrow>
     (case Outcome \<sigma> of
        None \<Rightarrow> stopChan \<sigma> \<or> run_left (RunPc \<sigma>) > 3
      | Some (Exited code) \<Rightarrow> stopChan \<sigma> \<and> code \<in> {0, 1}
      | Some (Crashed p) \<Rightarrow> EnvConvert env (resourceStore (ProcCtl \<sigma>)) = Panic p)"

lemma Run_step_outcome:
  assumes "Run_step env CleanUpOwnLocks \<sigma> = Some \<sigma>'" and "Outcome \<sigma> = None" and "stopChan \<sigma> \<or> run_left (RunPc \<sigma>) > 3"
    and "\<And>p. fst (EnvStop env (ProcWorld \<sigma>)) \<noteq> Panic p"
  shows "ends_well env \<sigma>'"
  using assms by (auto simp: Run_step_def Let_def ends_well_def
      split: run_pc.splits option.splits if_splits prod.splits result.splits)

lemma other_step_outcome:
  assumes "proc_step q pending env CleanUpOwnLocks opts location \<sigma> a \<sigma>'" and "a \<noteq> ByRun"
    and "a \<noteq> ByWorker \<or> WorkerPc \<sigma> \<noteq> Running"
  shows "Outcome \<sigma>' = None"
  using assms by (auto elim!: proc_step.cases simp: main_step_def worker_step_def syncer_step_def
      split: main_pc.splits goroutine.splits if_splits)

lemma proc_step_ends_well:
  assumes "work_queue q pending down" and "controller_world env loaded files" and "\<And>w p. fst (EnvStop env w) \<noteq> Panic p"
    and "proc_step q pending env CleanUpOwnLocks opts location \<sigma> a \<sigma>'" and "ends_well env \<sigma>"
  shows "ends_well env \<sigma>'"
proof -
  have live: "Outcome \<sigma> = None" by (rule live_before [OF assms(4)])
  with assms(5) have pc: "stopChan \<sigma> \<or> run_left (RunPc \<sigma>) > 3" by (simp add: ends_well_def)
  show ?thesis
  proof (cases "a = ByRun")
    case True
    with assms(4) have "Run_step env CleanUpOwnLocks \<sigma> = Some \<sigma>'" by (auto elim: proc_step.cases)
    from Run_step_outcome [OF this live pc assms(3)] show ?thesis .
  next
    case False
    note frame = other_step_left [OF assms(4) False]
    show ?thesis
    proof (cases "a = ByWorker \<and> WorkerPc \<sigma> = Running")
      case True
      with assms(4) have "worker_step q env \<sigma> = Some \<sigma>'" and waiting: "pending (syncQueue (ProcCtl \<sigma>)) \<noteq> []"
        by (auto elim: proc_step.cases)
      with worker_step_controller [OF this(1)] True obtain r where
        item: "processNextItem q env (ProcCtl \<sigma>) (ProcWorld \<sigma>) = (r, ProcCtl \<sigma>', ProcWorld \<sigma>')" and
        out: "Outcome \<sigma>' = (case r of Panic p \<Rightarrow> Some (Crashed p) | _ \<Rightarrow> Outcome \<sigma>)" by auto
      from work_queue.turn_controller [OF assms(1) item waiting] obtain action c1 s where
        "process_action env action (ProcCtl \<sigma>) (ProcWorld \<sigma>) = (r, c1, ProcWorld \<sigma>')" "ProcCtl \<sigma>' = c1\<lparr>syncQueue := s\<rparr>"
        by metis
      with controller_world.process_action_panics [OF assms(2) this(1)] out pc frame live show ?thesis
        by (auto simp: ends_well_def)
    next
      case False
      with other_step_outcome [OF assms(4) \<open>a \<noteq> ByRun\<close>] pc frame show ?thesis by (auto simp: ends_well_def)
    qed
  qed
qed

text \<open>
  C11. The process ends in two ways only: with the exit code 0 or 1 after a signal, or by a panic of
  the worker that is a panic of the conversion of its store. In particular no failed request, no
  failed reload and no lost connection ends it, if Caddy's \<open>Stop\<close> does not panic.
\<close>

theorem how_the_process_ends:
  assumes "work_queue q pending down" and "controller_world env loaded files" and "\<And>w p. fst (EnvStop env w) \<noteq> Panic p"
    and "proc_reachable q pending down env CleanUpOwnLocks opts location \<sigma>" and "Outcome \<sigma> = Some out"
  shows "(\<exists>code \<in> {0, 1}. out = Exited code \<and> stopChan \<sigma>) \<or>
     (\<exists>p. out = Crashed p \<and> EnvConvert env (resourceStore (ProcCtl \<sigma>)) = Panic p)"
proof -
  from assms(4) have "ends_well env \<sigma>"
  proof (induction rule: proc_reachable_induct)
    case (start get podName podNs queue c w now)
    then show ?case by (simp add: ends_well_def new_process_def)
  next
    case (step \<sigma> a \<sigma>')
    from proc_step_ends_well [OF assms(1-3) step(2,1)] show ?case .
  qed
  with assms(5) show ?thesis by (cases out) (auto simp: ends_well_def)
qed

theorem how_the_process_ends_witness:
  "front_reachable front_exited \<and> (\<exists>code \<in> {0, 1}. Outcome front_exited = Some (Exited code)) \<and> stopChan front_exited"
proof -
  have "fst (EnvStop front_env w) \<noteq> Panic p" for w p by simp
  moreover have "Outcome front_exited = Some (Exited 0)" by (simp add: front_exited_def)
  ultimately show ?thesis
    using how_the_process_ends [OF mem_queue.work_queue_axioms front.controller_world_axioms _ front_exited_reachable,
        of "Exited 0"] front_exited_reachable by auto
qed

text \<open>
  C37. The worker outlives the shutdown: nothing stops it before the process exits, because \<open>runWorker\<close> does not look
  at the stop channel and the deferred shutdown of its queue is never reached. There is a run of the process, by its
  own goroutines and informers alone, in which the signal has come and \<open>Shutdown\<close> has cleared the status of the
  ingress; then a turn of the worker, on a status sync that waits, puts the address back, and in the next two steps of
  \<open>Run\<close> the process exits with 0 and leaves its address in the status.
\<close>

theorem shutdown_leaves_address:
  "\<exists>actors \<sigma> \<sigma>'.
     proc_run list_queue fst front_env id front_opts front_location
       (new_process front_opts front_controller front_location front_world 0) actors \<sigma> \<and>
     ByOutside \<notin> set actors \<and> stopChan \<sigma> \<and> RunPc \<sigma> = RunStopCaddy \<and>
     map LoadBalancerIngress (MemIngresses (ProcWorld \<sigma>)) = [[\<lparr>IP = [], Hostname = []\<rparr>]] \<and>
     proc_run list_queue fst front_env id front_opts front_location \<sigma> [ByWorker, ByRun, ByRun] \<sigma>' \<and>
     Outcome \<sigma>' = Some (Exited 0) \<and>
     map LoadBalancerIngress (MemIngresses (ProcWorld \<sigma>')) = [[\<lparr>IP = ''203.0.113.7'', Hostname = []\<rparr>]]"
proof (intro exI conjI)
  show "ByOutside \<notin> set front_stopping" by (simp add: front_stopping_def front_starting_def front_listing_def)
  show "proc_run list_queue fst front_env id front_opts front_location
      (new_process front_opts front_controller front_location front_world 0) front_stopping front_cleared"
    using front_cleared_run by (simp add: front_start_def)
  show "proc_run list_queue fst front_env id front_opts front_location front_cleared [ByWorker, ByRun, ByRun] front_exited"
    by (rule front_exited_run)
qed (simp_all add: front_exited_def front_cleared_def front_status_def front_lb_def)

end
