(* ===== verification/Clean_Key.thy ===== *)
theory Clean_Key
  imports Go_Strings
begin

text \<open>
  \<open>cleanKey\<close> of \<open>pkg/storage\<close>: from a storage key of certmagic to the name of a Kubernetes object.
  The two regular expressions are character runs; \<open>replace_runs\<close> is \<open>ReplaceAllString\<close> for a
  pattern that matches maximal runs of a class of characters. Bytes outside ASCII are special
  characters to the first expression, so that reading the key bytewise or rune by rune is the same.
\<close>

section \<open>The function\<close>

definition keyPrefix :: string where
  "keyPrefix = ''caddy.ingress--''"

definition leasePrefix :: string where
  "leasePrefix = ''caddy-lock-''"

function replace_runs :: "(char \<Rightarrow> bool) \<Rightarrow> (string \<Rightarrow> string) \<Rightarrow> string \<Rightarrow> string" where
  "replace_runs P f [] = []"
| "replace_runs P f (c # s) =
     (if P c then f (c # takeWhile P s) @ replace_runs P f (dropWhile P s)
      else c # replace_runs P f s)"
  by pat_completeness auto
termination
  by (relation "measure (\<lambda>(P, f, s). length s)") (auto simp: le_imp_less_Suc length_dropWhile_le)

definition is_alnum :: "char \<Rightarrow> bool" where
  "is_alnum c \<longleftrightarrow> is_digit c \<or> is_lower c \<or> is_upper c"

text \<open>\<open>specialChars\<close>, \<open>[^\da-zA-Z-]+\<close>: a run of other characters becomes one dot.\<close>

definition specialChars_ReplaceAll :: "string \<Rightarrow> string" where
  "specialChars_ReplaceAll s = replace_runs (\<lambda>c. \<not> is_alnum c \<and> c \<noteq> CHR ''-'') (\<lambda>run. ''.'') s"

text \<open>\<open>dotDashRuns\<close>, \<open>[.-]*\.[.-]*\<close>: a run of dots and dashes with a dot becomes one dot.\<close>

definition is_dot_dash :: "char \<Rightarrow> bool" where
  "is_dot_dash c \<longleftrightarrow> c = CHR ''.'' \<or> c = CHR ''-''"

definition dot_dash_run :: "string \<Rightarrow> string" where
  "dot_dash_run run = (if CHR ''.'' \<in> set run then ''.'' else run)"

definition dotDashRuns_ReplaceAll :: "string \<Rightarrow> string" where
  "dotDashRuns_ReplaceAll s = replace_runs is_dot_dash dot_dash_run s"

definition cleanKey :: "string \<Rightarrow> string \<Rightarrow> string" where
  "cleanKey key pre =
     (let clean = ToLower (specialChars_ReplaceAll key);
          clean = dotDashRuns_ReplaceAll clean;
          clean = Trim clean CHR ''.'';
          clean = TrimRight clean CHR ''-''
      in pre @ clean)"

section \<open>Replacing runs\<close>

text \<open>A character outside the class ends the run before it and starts none.\<close>

lemma replace_runs_keep:
  "\<not> P d \<Longrightarrow> replace_runs P f (s @ d # t) = replace_runs P f s @ d # replace_runs P f t"
proof (induction P f s rule: replace_runs.induct)
  case (2 P f c s)
  then show ?case
    by (cases "P c"; cases "\<exists>x \<in> set s. \<not> P x")
      (auto simp: takeWhile_append dropWhile_append takeWhile_eq_all_conv [THEN iffD2]
        dropWhile_eq_Nil_conv [THEN iffD2])
qed simp

text \<open>Every character of the result is kept from the input or comes from a replaced run.\<close>

lemma replace_runs_chars:
  assumes "\<And>c. c \<in> set s \<Longrightarrow> \<not> P c \<Longrightarrow> Q c"
    and "\<And>run c. run \<noteq> [] \<Longrightarrow> set run \<subseteq> set s \<Longrightarrow> \<forall>d \<in> set run. P d \<Longrightarrow> c \<in> set (f run) \<Longrightarrow> Q c"
  shows "c \<in> set (replace_runs P f s) \<Longrightarrow> Q c"
  using assms
proof (induction P f s arbitrary: c rule: replace_runs.induct)
  case (1 P f)
  then show ?case by simp
next
  case (2 P f d s)
  show ?case
  proof (cases "P d")
    case False
    with 2(3) have "c = d \<or> c \<in> set (replace_runs P f s)" by simp
    then show ?thesis
    proof
      assume "c \<in> set (replace_runs P f s)"
      from 2(2) [OF False this] 2(4,5) show ?thesis by (simp add: subset_insertI2)
    qed (use False 2(4) in simp)
  next
    case True
    have run: "set (d # takeWhile P s) \<subseteq> set (d # s)" "\<forall>x \<in> set (d # takeWhile P s). P x"
      using True by (auto dest: set_takeWhileD)
    from True 2(3) have "c \<in> set (f (d # takeWhile P s)) \<or> c \<in> set (replace_runs P f (dropWhile P s))"
      by simp
    then show ?thesis
    proof
      assume "c \<in> set (replace_runs P f (dropWhile P s))"
      then show ?thesis
        using 2(1) [OF True, of c] 2(4,5) set_dropWhileD by (metis (no_types, lifting) list.set_intros(2) subset_code(1))
    qed (use run 2(5) in blast)
  qed
qed

lemma length_replace_runs:
  assumes "\<And>run. run \<noteq> [] \<Longrightarrow> length (f run) \<le> length run"
  shows "length (replace_runs P f s) \<le> length s"
  using assms
proof (induction P f s rule: replace_runs.induct)
  case (2 P f c s)
  then show ?case
  proof (cases "P c")
    case True
    have "length (f (c # takeWhile P s)) \<le> Suc (length (takeWhile P s))"
      using 2(3) [of "c # takeWhile P s"] by simp
    moreover have "length (replace_runs P f (dropWhile P s)) \<le> length (dropWhile P s)"
      using 2(1) [OF True 2(3)] .
    moreover have "length (takeWhile P s) + length (dropWhile P s) = length s"
      by (metis length_append takeWhile_dropWhile_id)
    ultimately show ?thesis using True by simp
  qed simp
qed simp

section \<open>The names it produces\<close>

definition is_name_alnum :: "char \<Rightarrow> bool" where
  "is_name_alnum c \<longleftrightarrow> is_digit c \<or> is_lower c"

definition valid_label :: "string \<Rightarrow> bool" where
  "valid_label l \<longleftrightarrow>
     l \<noteq> [] \<and> list_all (\<lambda>c. is_name_alnum c \<or> c = CHR ''-'') l \<and>
     is_name_alnum (hd l) \<and> is_name_alnum (last l)"

text \<open>A lowercase RFC 1123 subdomain: labels of lowercase alphanumerics and dashes between dots.\<close>

definition rfc1123_subdomain :: "string \<Rightarrow> bool" where
  "rfc1123_subdomain s \<longleftrightarrow> list_all valid_label (Split CHR ''.'' s)"

text \<open>The part of \<open>cleanKey\<close> before the trimming, and the trimming.\<close>

definition collapse :: "string \<Rightarrow> string" where
  "collapse key = dotDashRuns_ReplaceAll (ToLower (specialChars_ReplaceAll key))"

definition trim_ends :: "string \<Rightarrow> string" where
  "trim_ends s = TrimRight (TrimRight (TrimLeft s CHR ''.'') CHR ''.'') CHR ''-''"

lemma cleanKey_eq: "cleanKey key pre = pre @ trim_ends (collapse key)"
  by (simp add: cleanKey_def collapse_def trim_ends_def Trim_def)

lemma alnum_not_punct:
  "is_alnum c \<Longrightarrow> c \<noteq> CHR ''-'' \<and> c \<noteq> CHR ''.'' \<and> c \<noteq> CHR ''/''"
  "is_name_alnum c \<Longrightarrow> c \<noteq> CHR ''-'' \<and> c \<noteq> CHR ''.''"
  by (auto simp: is_alnum_def is_name_alnum_def char_range_defs)

lemma name_alnum_alnum [simp]: "is_name_alnum c \<Longrightarrow> is_alnum c"
  by (auto simp: is_alnum_def is_name_alnum_def)

lemma name_alnum_lower [simp]: "is_name_alnum c \<Longrightarrow> lower_char c = c"
  by (auto simp: is_name_alnum_def)

lemma alnum_lower_char: "is_alnum c \<Longrightarrow> is_name_alnum (lower_char c)"
  by (auto simp: is_alnum_def is_name_alnum_def is_lower_lower_char)

lemma punct_not_alnum [simp]:
  "\<not> is_name_alnum CHR ''.''" "\<not> is_name_alnum CHR ''-''" "\<not> is_alnum CHR ''.''" "\<not> is_alnum CHR ''-''"
  using alnum_not_punct by blast+

lemma lower_char_punct [simp]: "lower_char CHR ''.'' = CHR ''.''" "lower_char CHR ''-'' = CHR ''-''"
  by (simp_all add: lower_char_def char_range_defs)

abbreviation name_char :: "char \<Rightarrow> bool" where
  "name_char c \<equiv> is_name_alnum c \<or> c = CHR ''-'' \<or> c = CHR ''.''"

lemma collapse_chars: "c \<in> set (collapse key) \<Longrightarrow> name_char c"
proof -
  have special: "is_alnum d \<or> d = CHR ''-'' \<or> d = CHR ''.''" if "d \<in> set (specialChars_ReplaceAll key)" for d
    using that unfolding specialChars_ReplaceAll_def by (rule replace_runs_chars [rotated -1]) auto
  have lower: "name_char d" if "d \<in> set (ToLower (specialChars_ReplaceAll key))" for d
    using that special alnum_lower_char by (fastforce simp: ToLower_def)
  assume "c \<in> set (collapse key)"
  then show ?thesis
    unfolding collapse_def dotDashRuns_ReplaceAll_def
    by (rule replace_runs_chars [rotated -1])
      (use lower in \<open>auto simp: is_dot_dash_def dot_dash_run_def split: if_splits\<close>)
qed

text \<open>No dot stands next to a dot or a dash.\<close>

fun dots_apart :: "string \<Rightarrow> bool" where
  "dots_apart (c # d # s) =
     ((c = CHR ''.'' \<longrightarrow> \<not> is_dot_dash d) \<and> (d = CHR ''.'' \<longrightarrow> \<not> is_dot_dash c) \<and> dots_apart (d # s))"
| "dots_apart _ = True"

lemma dots_apart_append:
  "dots_apart (s @ t) \<longleftrightarrow> dots_apart s \<and> dots_apart t \<and>
     (s = [] \<or> t = [] \<or> dots_apart [last s, hd t])"
proof (induction s)
  case (Cons c s)
  then show ?case
    by (cases s; cases t) auto
qed simp

lemma dots_apart_no_dot: "CHR ''.'' \<notin> set s \<Longrightarrow> dots_apart s"
  by (induction s rule: dots_apart.induct) auto

lemma dots_apart_run: "dots_apart (dot_dash_run run)"
  by (simp add: dot_dash_run_def dots_apart_no_dot)

lemma dots_apart_replace: "dots_apart (replace_runs is_dot_dash dot_dash_run s)"
proof -
  have "dots_apart (replace_runs P f s) \<and>
      (s \<noteq> [] \<and> \<not> P (hd s) \<longrightarrow> (\<exists>t. replace_runs P f s = hd s # t))"
    if "P = is_dot_dash" "f = dot_dash_run" for P f
    using that
  proof (induction P f s rule: replace_runs.induct)
    case (1 P f)
    then show ?case by simp
  next
    case (2 P f c s)
    show ?case
    proof (cases "P c")
      case False
      have "c \<noteq> CHR ''.''" using False 2(3) by (auto simp: is_dot_dash_def)
      with False 2 show ?thesis
        using 2(2) [OF False 2(3,4)]
        by (cases "replace_runs P f s") auto
    next
      case True
      have rest: "dots_apart (replace_runs P f (dropWhile P s))"
        using 2(1) [OF True 2(3,4)] by simp
      have hd: "\<not> is_dot_dash (hd (replace_runs P f (dropWhile P s)))" if "replace_runs P f (dropWhile P s) \<noteq> []"
      proof -
        have ne: "dropWhile P s \<noteq> []" using that replace_runs.simps(1) by metis
        then have "\<not> P (hd (dropWhile P s))" by (rule hd_dropWhile)
        with 2(1) [OF True 2(3,4)] ne 2(3) show ?thesis by auto
      qed
      from rest hd dots_apart_run [of "c # takeWhile P s"] True 2(3,4) show ?thesis
        by (auto simp: dots_apart_append is_dot_dash_def)
    qed
  qed
  then show ?thesis by blast
qed

lemma dots_apart_collapse: "dots_apart (collapse key)"
  by (simp add: collapse_def dotDashRuns_ReplaceAll_def dots_apart_replace)

lemma trim_ends_infix: "\<exists>a b. s = a @ trim_ends s @ b"
proof -
  let ?l = "TrimLeft s CHR ''.''" let ?r = "TrimRight ?l CHR ''.''"
  obtain b1 where "?l = ?r @ b1" using TrimRight_prefix by blast
  moreover obtain b2 where "?r = trim_ends s @ b2" using TrimRight_prefix by (metis trim_ends_def)
  moreover have "s = takeWhile (\<lambda>d. d = CHR ''.'') s @ ?l" by (simp add: TrimLeft_def)
  ultimately show ?thesis by (metis append.assoc)
qed

lemma dots_apart_infix: "dots_apart (a @ s @ b) \<Longrightarrow> dots_apart s"
  by (simp add: dots_apart_append)

lemma TrimRight_dot_dash:
  assumes "dots_apart s"
  shows "TrimRight (TrimRight s CHR ''.'') CHR ''-'' = [] \<or>
         \<not> is_dot_dash (last (TrimRight (TrimRight s CHR ''.'') CHR ''-''))"
proof -
  let ?r = "TrimRight s CHR ''.''" let ?t = "TrimRight ?r CHR ''-''"
  obtain b where b: "?r = ?t @ b" "set b \<subseteq> {CHR ''-''}" using TrimRight_prefix by blast
  obtain b' where "s = ?r @ b'" using TrimRight_prefix by blast
  with assms have apart: "dots_apart ?r" by (metis append_Nil dots_apart_infix)
  have "last ?t \<noteq> CHR ''.''" if "?t \<noteq> []"
  proof (cases "b = []")
    case True
    with b that show ?thesis using TrimRight_Nil_or_last [of s "CHR ''.''"] by simp
  next
    case False
    with b(2) have "hd b = CHR ''-''" by (cases b) auto
    with apart b(1) that False show ?thesis
      by (metis dots_apart.simps(1) dots_apart_append is_dot_dash_def)
  qed
  with TrimRight_Nil_or_last [of ?r "CHR ''-''"] show ?thesis by (auto simp: is_dot_dash_def)
qed

lemma trim_ends_shape:
  assumes "dots_apart s" and "\<And>c. c \<in> set s \<Longrightarrow> name_char c"
  shows "dots_apart (trim_ends s)" and "\<And>c. c \<in> set (trim_ends s) \<Longrightarrow> name_char c"
    and "trim_ends s = [] \<or> hd (trim_ends s) \<noteq> CHR ''.''"
    and "trim_ends s = [] \<or> is_name_alnum (last (trim_ends s))"
proof -
  obtain a b where ab: "s = a @ trim_ends s @ b" using trim_ends_infix by blast
  then show "dots_apart (trim_ends s)" using assms(1) by (metis dots_apart_infix)
  show chars: "name_char c" if "c \<in> set (trim_ends s)" for c
    using that ab assms(2) by (metis Un_iff set_append)
  let ?l = "TrimLeft s CHR ''.''"
  obtain b1 where b1: "?l = TrimRight ?l CHR ''.'' @ b1" using TrimRight_prefix by blast
  obtain b2 where "TrimRight ?l CHR ''.'' = trim_ends s @ b2"
    using TrimRight_prefix by (metis trim_ends_def)
  with b1 have "?l = trim_ends s @ b2 @ b1" by (metis append.assoc)
  then show "trim_ends s = [] \<or> hd (trim_ends s) \<noteq> CHR ''.''"
    using TrimLeft_Nil_or_hd [of s "CHR ''.''"] by (metis append_is_Nil_conv hd_append2)
  have "s = takeWhile (\<lambda>d. d = CHR ''.'') s @ ?l" by (simp add: TrimLeft_def)
  then have "dots_apart ?l" using assms(1) by (metis append_Nil2 dots_apart_infix)
  from TrimRight_dot_dash [OF this] chars
  show "trim_ends s = [] \<or> is_name_alnum (last (trim_ends s))"
    unfolding trim_ends_def using last_in_set by (auto simp: is_dot_dash_def trim_ends_def)
qed

lemma collapse_trimmed:
  "dots_apart (trim_ends (collapse key))"
  "c \<in> set (trim_ends (collapse key)) \<Longrightarrow> name_char c"
  "trim_ends (collapse key) = [] \<or> hd (trim_ends (collapse key)) \<noteq> CHR ''.''"
  "trim_ends (collapse key) = [] \<or> is_name_alnum (last (trim_ends (collapse key)))"
  using trim_ends_shape [OF dots_apart_collapse [of key] collapse_chars [of _ key]] by blast+

lemma valid_labels:
  assumes "s \<noteq> []" and "dots_apart s" and "\<And>c. c \<in> set s \<Longrightarrow> name_char c"
    and "is_name_alnum (hd s)" and "is_name_alnum (last s)"
  shows "rfc1123_subdomain s"
  using assms
proof (induction "length s" arbitrary: s rule: less_induct)
  case less
  show ?case
  proof (cases "CHR ''.'' \<in> set s")
    case False
    with less.prems show ?thesis
      by (auto simp: rfc1123_subdomain_def Split_single valid_label_def list_all_iff)
  next
    case True
    then obtain w t where s: "s = w @ CHR ''.'' # t" and w: "CHR ''.'' \<notin> set w"
      by (meson split_list_first)
    have "w \<noteq> []" using less.prems(4) s by auto
    have "t \<noteq> []" using less.prems(5) s by auto
    have apart: "dots_apart t" "\<not> is_dot_dash (last w)" "\<not> is_dot_dash (hd t)"
      using less.prems(2) s \<open>w \<noteq> []\<close> \<open>t \<noteq> []\<close> by (cases t; auto simp: dots_apart_append)+
    have "is_name_alnum (hd t)" and "is_name_alnum (last w)"
      using less.prems(3) apart s \<open>w \<noteq> []\<close> \<open>t \<noteq> []\<close>
      by (auto simp: is_dot_dash_def dest: hd_in_set last_in_set)
    moreover have "is_name_alnum (hd w)" using less.prems(4) s \<open>w \<noteq> []\<close> by simp
    moreover have "is_name_alnum (last t)" using less.prems(5) s \<open>t \<noteq> []\<close> by simp
    ultimately have "valid_label w" and "rfc1123_subdomain t"
      using less.hyps [of t] less.prems(3) apart(1) s w \<open>w \<noteq> []\<close> \<open>t \<noteq> []\<close>
      by (auto simp: valid_label_def list_all_iff)
    then show ?thesis using w by (simp add: rfc1123_subdomain_def s Split_append)
  qed
qed

section \<open>Cleaning around an alphanumeric character\<close>

lemma collapse_keep:
  "is_alnum c \<Longrightarrow> collapse (s @ c # t) = collapse s @ lower_char c # collapse t"
proof -
  assume c: "is_alnum c"
  then have "\<not> is_dot_dash (lower_char c)"
    using alnum_lower_char [OF c] alnum_not_punct(2) by (auto simp: is_dot_dash_def)
  with c show ?thesis
    by (simp add: collapse_def specialChars_ReplaceAll_def dotDashRuns_ReplaceAll_def ToLower_def
        replace_runs_keep)
qed

lemma collapse_no_alnum:
  assumes "\<forall>c \<in> set s. \<not> is_alnum c"
  shows "\<forall>c \<in> set (collapse s). is_dot_dash c"
proof -
  have special: "is_dot_dash d" if "d \<in> set (specialChars_ReplaceAll s)" for d
    using that unfolding specialChars_ReplaceAll_def
    by (rule replace_runs_chars [rotated -1]) (use assms in \<open>auto simp: is_dot_dash_def\<close>)
  have lower: "is_dot_dash d" if "d \<in> set (ToLower (specialChars_ReplaceAll s))" for d
    using that special by (fastforce simp: ToLower_def is_dot_dash_def)
  have "is_dot_dash d" if "d \<in> set (collapse s)" for d
    using that unfolding collapse_def dotDashRuns_ReplaceAll_def
    by (rule replace_runs_chars [rotated -1])
      (use lower in \<open>auto simp: is_dot_dash_def dot_dash_run_def split: if_splits\<close>)
  then show ?thesis by blast
qed

lemma TrimRight_keep: "d \<noteq> c \<Longrightarrow> TrimRight (x @ d # y) c = x @ d # TrimRight y c"
  by (simp add: TrimRight_def dropWhile_append)

lemma TrimLeft_keep: "d \<noteq> c \<Longrightarrow> TrimLeft (x @ d # y) c = TrimLeft x c @ d # y"
  by (auto simp: TrimLeft_def dropWhile_append)

definition trim_right_end :: "string \<Rightarrow> string" where
  "trim_right_end s = TrimRight (TrimRight s CHR ''.'') CHR ''-''"

lemma clean_keep:
  assumes "is_alnum c"
  shows "trim_ends (collapse (s @ c # t)) =
           TrimLeft (collapse s) CHR ''.'' @ lower_char c # trim_right_end (collapse t)"
  using alnum_not_punct(2) [OF alnum_lower_char [OF assms]]
  by (simp add: collapse_keep [OF assms] trim_ends_def trim_right_end_def TrimLeft_keep TrimRight_keep)

lemma trim_right_no_alnum:
  assumes "\<forall>c \<in> set t. \<not> is_alnum c"
  shows "trim_right_end (collapse t) = []"
proof -
  obtain b1 b2 where "collapse t = trim_right_end (collapse t) @ b1 @ b2"
    using TrimRight_prefix by (metis append.assoc trim_right_end_def)
  then have "set (trim_right_end (collapse t)) \<subseteq> set (collapse t)"
    by (metis Un_upper1 set_append)
  with TrimRight_dot_dash [OF dots_apart_collapse [of t]] collapse_no_alnum [OF assms]
  show ?thesis unfolding trim_right_end_def using last_in_set by blast
qed

lemma clean_no_alnum:
  assumes "\<forall>c \<in> set key. \<not> is_alnum c"
  shows "trim_ends (collapse key) = []"
proof (rule ccontr)
  assume ne: "trim_ends (collapse key) \<noteq> []"
  obtain a b where "collapse key = a @ trim_ends (collapse key) @ b" using trim_ends_infix by blast
  then have "last (trim_ends (collapse key)) \<in> set (collapse key)"
    using ne by (metis Un_iff last_in_set set_append)
  with collapse_no_alnum [OF assms] have "is_dot_dash (last (trim_ends (collapse key)))" by blast
  with collapse_trimmed(4) [of key] ne show False by (auto simp: is_dot_dash_def)
qed

text \<open>A key either has no alphanumeric character or splits at the last one.\<close>

lemma last_alnum_cases:
  obtains "\<forall>c \<in> set key. \<not> is_alnum c"
  | s c t where "key = s @ c # t" "is_alnum c" "\<forall>d \<in> set t. \<not> is_alnum d"
  using split_list_last_prop [of key is_alnum] by metis

lemma cleanKey_prefix:
  assumes "HasPrefix key pre"
  shows "HasPrefix (cleanKey key p) (cleanKey pre p)"
proof -
  from assms obtain rest where key: "key = pre @ rest" by (auto simp: HasPrefix_iff)
  show ?thesis
  proof (cases pre rule: last_alnum_cases)
    case 1
    then show ?thesis by (simp add: cleanKey_eq clean_no_alnum HasPrefix_iff)
  next
    case (2 s c t)
    then show ?thesis
      using clean_keep [OF 2(2), of s t] clean_keep [OF 2(2), of s "t @ rest"] trim_right_no_alnum [OF 2(3)]
      by (simp add: cleanKey_eq key HasPrefix_iff)
  qed
qed

lemma clean_nonempty: "trim_ends (collapse key) \<noteq> [] \<longleftrightarrow> (\<exists>c \<in> set key. is_alnum c)"
proof (cases key rule: last_alnum_cases)
  case 1
  then show ?thesis by (simp add: clean_no_alnum)
next
  case (2 s c t)
  then show ?thesis using clean_keep [OF 2(2), of s t] by auto
qed

lemma Split_last_char:
  "c \<noteq> sep \<Longrightarrow> last (Split sep (q @ [c])) \<noteq> [] \<and> last (last (Split sep (q @ [c]))) = c"
  by (induction q) (auto split: list.splits)

text \<open>A prefix that a cleaned key can follow.\<close>

definition name_prefix :: "string \<Rightarrow> bool" where
  "name_prefix p \<longleftrightarrow>
     p \<noteq> [] \<and> dots_apart p \<and> list_all name_char p \<and> is_name_alnum (hd p) \<and> last p = CHR ''-''"

lemma cleanKey_valid:
  assumes "name_prefix p"
  shows "rfc1123_subdomain (cleanKey key p) \<longleftrightarrow> (\<exists>c \<in> set key. is_alnum c)"
proof
  let ?clean = "trim_ends (collapse key)"
  assume "\<exists>c \<in> set key. is_alnum c"
  then have ne: "?clean \<noteq> []" by (simp add: clean_nonempty)
  show "rfc1123_subdomain (cleanKey key p)"
    unfolding cleanKey_eq
  proof (rule valid_labels)
    show "dots_apart (p @ ?clean)"
      using assms ne collapse_trimmed(1,3) [of key] by (auto simp: name_prefix_def dots_apart_append)
    show "is_name_alnum (last (p @ ?clean))" using ne collapse_trimmed(4) [of key] by auto
  qed (use assms collapse_trimmed(2) in \<open>auto simp: name_prefix_def list_all_iff\<close>)
next
  assume valid: "rfc1123_subdomain (cleanKey key p)"
  show "\<exists>c \<in> set key. is_alnum c"
  proof (rule ccontr)
    assume "\<not> (\<exists>c \<in> set key. is_alnum c)"
    then have "cleanKey key p = p" by (simp add: cleanKey_eq clean_no_alnum)
    moreover obtain q where "p = q @ ''-''"
      using assms by (metis name_prefix_def append_butlast_last_id)
    ultimately have "last (last (Split CHR ''.'' (cleanKey key p))) = CHR ''-''"
      using Split_last_char [of "CHR ''-''" "CHR ''.''" q] by simp
    with valid show False
      by (metis Split_nonempty last_in_set list_all_iff punct_not_alnum(2) rfc1123_subdomain_def valid_label_def)
  qed
qed

lemma cleanKey_prefixes: "name_prefix keyPrefix" "name_prefix leasePrefix"
  by (simp_all add: name_prefix_def keyPrefix_def leasePrefix_def is_dot_dash_def is_name_alnum_def
      char_range_defs)

section \<open>Names are fixed points\<close>

lemma dots_apart_run_single:
  assumes "dots_apart run" and "\<forall>c \<in> set run. is_dot_dash c" and "CHR ''.'' \<in> set run"
  shows "run = ''.''"
proof -
  from assms(3) obtain a b where run: "run = a @ CHR ''.'' # b" by (meson split_list)
  have "a = []"
  proof (rule ccontr)
    assume "a \<noteq> []"
    with assms(1,2) run last_in_set [of a] show False by (auto simp: dots_apart_append)
  qed
  moreover have "b = []"
    using assms(1,2) run by (cases b) (auto simp: dots_apart_append)
  ultimately show ?thesis using run by simp
qed

lemma replace_runs_fixed:
  assumes "\<And>a run b. s = a @ run @ b \<Longrightarrow> run \<noteq> [] \<Longrightarrow> \<forall>c \<in> set run. P c \<Longrightarrow> f run = run"
  shows "replace_runs P f s = s"
  using assms
proof (induction P f s rule: replace_runs.induct)
  case (1 P f)
  then show ?case by simp
next
  case (2 P f c s)
  show ?case
  proof (cases "P c")
    case True
    have "f (c # takeWhile P s) = c # takeWhile P s"
      using True by (intro 2(3) [of "[]" _ "dropWhile P s"]) (auto dest: set_takeWhileD)
    moreover have "replace_runs P f (dropWhile P s) = dropWhile P s"
    proof (rule 2(1) [OF True])
      fix a run b
      assume "dropWhile P s = a @ run @ b" and run: "run \<noteq> []" "\<forall>c \<in> set run. P c"
      then have "c # s = (c # takeWhile P s @ a) @ run @ b"
        by (metis append.assoc append_Cons takeWhile_dropWhile_id)
      then show "f run = run" using run by (rule 2(3))
    qed
    ultimately show ?thesis using True by simp
  next
    case False
    have "replace_runs P f s = s"
    proof (rule 2(2) [OF False])
      fix a run b
      assume "s = a @ run @ b" and run: "run \<noteq> []" "\<forall>c \<in> set run. P c"
      then have "c # s = (c # a) @ run @ b" by simp
      then show "f run = run" using run by (rule 2(3))
    qed
    with False show ?thesis by simp
  qed
qed

lemma collapse_fixed:
  assumes "dots_apart s" and "\<And>c. c \<in> set s \<Longrightarrow> name_char c"
  shows "collapse s = s"
proof -
  have "specialChars_ReplaceAll s = s"
    unfolding specialChars_ReplaceAll_def
  proof (rule replace_runs_fixed)
    fix a run b
    assume s: "s = a @ run @ b" and run: "run \<noteq> []" "\<forall>c \<in> set run. \<not> is_alnum c \<and> c \<noteq> CHR ''-''"
    then have dots: "\<forall>c \<in> set run. c = CHR ''.''"
      using assms(2) by (auto dest: name_alnum_alnum)
    have "CHR ''.'' \<in> set run" using dots run(1) hd_in_set by metis
    moreover have "\<forall>c \<in> set run. is_dot_dash c" using dots by (simp add: is_dot_dash_def)
    ultimately have "run = ''.''"
      using dots_apart_run_single [OF dots_apart_infix [OF assms(1) [unfolded s]]] by blast
    then show "''.'' = run" by simp
  qed
  moreover have "ToLower s = s"
    unfolding ToLower_def
  proof (rule map_idI)
    show "lower_char c = c" if "c \<in> set s" for c using assms(2) [OF that] by auto
  qed
  moreover have "dotDashRuns_ReplaceAll s = s"
    unfolding dotDashRuns_ReplaceAll_def
  proof (rule replace_runs_fixed)
    fix a run b
    assume s: "s = a @ run @ b" and run: "run \<noteq> []" "\<forall>c \<in> set run. is_dot_dash c"
    then show "dot_dash_run run = run"
      using dots_apart_run_single [OF dots_apart_infix [OF assms(1) [unfolded s]] run(2)]
      by (auto simp: dot_dash_run_def)
  qed
  ultimately show ?thesis by (simp add: collapse_def)
qed

lemma trim_ends_fixed:
  "s = [] \<or> hd s \<noteq> CHR ''.'' \<and> is_name_alnum (last s) \<Longrightarrow> trim_ends s = s"
proof -
  assume s: "s = [] \<or> hd s \<noteq> CHR ''.'' \<and> is_name_alnum (last s)"
  then have "s = [] \<or> last s \<noteq> CHR ''.''" and "s = [] \<or> last s \<noteq> CHR ''-''" by auto
  with s show ?thesis by (auto simp: trim_ends_def TrimLeft_id TrimRight_id)
qed

lemma clean_idem: "trim_ends (collapse (trim_ends (collapse key))) = trim_ends (collapse key)"
  using collapse_trimmed [where key = key]
  by (subst collapse_fixed) (auto intro!: trim_ends_fixed)

lemma cleanKey_idem: "cleanKey (TrimPrefix (cleanKey key p) p) p = cleanKey key p"
  by (simp add: cleanKey_eq clean_idem)

lemma length_clean: "length (trim_ends (collapse key)) \<le> length key"
proof -
  have special: "length (specialChars_ReplaceAll key) \<le> length key"
    unfolding specialChars_ReplaceAll_def by (rule length_replace_runs) (auto simp: Suc_le_eq)
  have "length (collapse key) \<le> length (ToLower (specialChars_ReplaceAll key))"
    unfolding collapse_def dotDashRuns_ReplaceAll_def
    by (rule length_replace_runs) (auto simp: dot_dash_run_def Suc_le_eq)
  moreover obtain a b where "collapse key = a @ trim_ends (collapse key) @ b"
    using trim_ends_infix by blast
  then have "length (trim_ends (collapse key)) \<le> length (collapse key)"
    by (metis le_add1 le_add2 length_append le_trans)
  ultimately show ?thesis using special by (simp add: ToLower_def)
qed

text \<open>
  C26. \<open>cleanKey\<close> produces a lowercase RFC 1123 subdomain, the form Kubernetes asks of a name, for
  every key that has a letter or digit, and only for those: any other key leaves the bare prefix,
  which ends in a dash. The name is at most as long as the prefix and the key.
\<close>

theorem cleanKey_rfc1123:
  "(rfc1123_subdomain (cleanKey key keyPrefix) \<longleftrightarrow> list_ex is_alnum key) \<and>
   (rfc1123_subdomain (cleanKey key leasePrefix) \<longleftrightarrow> list_ex is_alnum key) \<and>
   length (cleanKey key p) \<le> length p + length key"
  using cleanKey_valid [OF cleanKey_prefixes(1)] cleanKey_valid [OF cleanKey_prefixes(2)] length_clean [of key]
  by (simp add: list_ex_iff cleanKey_eq)

text \<open>
  Cleaning is idempotent: the key that \<open>List\<close> reports for a secret, its name without the
  prefix, is cleaned to the name of that secret again, so it can be loaded and deleted by it.
\<close>

lemma cleanKey_reported_key:
  "cleanKey (TrimPrefix (cleanKey key keyPrefix) keyPrefix) keyPrefix = cleanKey key keyPrefix"
  by (rule cleanKey_idem)

end
