(* ===== verification/Secret_Storage.thy ===== *)
theory Secret_Storage
  imports Clean_Key Kube_Types
begin

text \<open>
  The certificate storage of \<open>pkg/storage\<close> without its locks: certmagic's values kept in
  Kubernetes secrets. The client of the API server is third-party code: a record of functions on
  the state \<open>'w\<close> of the cluster, each returning a result and the next state. What Kubernetes
  documents of these requests is the locale \<open>secret_api\<close>; in particular a request that fails may
  have been carried out, and may fail for any reason.

  What certmagic relies on is the locale \<open>certmagic_storage\<close>: a map from keys to values, where keys
  with one canonical form are one entry. \<open>SecretStorage\<close> provides it over any client that keeps
  \<open>secret_api\<close> (the sublocale), and the in-memory client of the package's tests is such a client.
\<close>

section \<open>The client\<close>

record StoredSecret =
  SecretObjName :: string
  SecretLabels :: labels
  SecretObjData :: "(string \<times> bytes) list"
  Created :: int

record 'w SecretClient =
  SecretGet :: "string \<Rightarrow> string \<Rightarrow> 'w \<Rightarrow> StoredSecret result \<times> 'w"
  SecretCreate :: "string \<Rightarrow> StoredSecret \<Rightarrow> 'w \<Rightarrow> StoredSecret result \<times> 'w"
  SecretUpdate :: "string \<Rightarrow> StoredSecret \<Rightarrow> 'w \<Rightarrow> StoredSecret result \<times> 'w"
  SecretDelete :: "string \<Rightarrow> string \<Rightarrow> 'w \<Rightarrow> unit result \<times> 'w"
  SecretList :: "string \<Rightarrow> labels \<Rightarrow> 'w \<Rightarrow> StoredSecret list result \<times> 'w"

definition matchLabels :: labels where
  "matchLabels = [(''manager'', ''caddy'')]"

text \<open>A label selector that asks for equality of each of its labels.\<close>

definition selector_matches :: "labels \<Rightarrow> labels \<Rightarrow> bool" where
  "selector_matches sel ls \<longleftrightarrow> list_all (\<lambda>(k, v). map_of ls k = Some v) sel"

section \<open>The storage\<close>

record SecretStorage =
  StorageNs :: string
  LeaseID :: string

text \<open>
  \<open>Provision\<close>: building the client configuration, the client and a UUID are third-party code,
  parameters here. The result is the storage with its lease identity and the client it uses.
\<close>

record RestConfig =
  RestHost :: string
  RestTimeout :: int

definition kubeAPITimeout :: int where
  "kubeAPITimeout = 30 * 1000000"

definition Provision ::
  "(string \<Rightarrow> string \<Rightarrow> RestConfig result) \<Rightarrow> (RestConfig \<Rightarrow> 'c result) \<Rightarrow> string \<Rightarrow> string \<Rightarrow>
     SecretStorage \<Rightarrow> (SecretStorage \<times> 'c) result" where
  "Provision BuildConfigFromFlags NewForConfig uuid KUBECONFIG s =
     (case BuildConfigFromFlags [] KUBECONFIG of
        Err e \<Rightarrow> Err (Formatted ''building kubernetes client config'' e)
      | Panic p \<Rightarrow> Panic p
      | Ok config \<Rightarrow>
          (case NewForConfig (config\<lparr>RestTimeout := kubeAPITimeout\<rparr>) of
             Err e \<Rightarrow> Err (Formatted ''creating kubernetes client'' e)
           | Panic p \<Rightarrow> Panic p
           | Ok clientset \<Rightarrow>
               Ok (if LeaseID s = [] then s\<lparr>LeaseID := uuid\<rparr> else s, clientset)))"

text \<open>\<open>secret.Data["value"]\<close>: a missing entry is the nil slice.\<close>

definition secret_value :: "StoredSecret \<Rightarrow> bytes" where
  "secret_value se = (case map_of (SecretObjData se) ''value'' of None \<Rightarrow> [] | Some v \<Rightarrow> v)"

definition SecretStorage_Exists :: "'w SecretClient \<Rightarrow> SecretStorage \<Rightarrow> string \<Rightarrow> 'w \<Rightarrow> bool \<times> 'w" where
  "SecretStorage_Exists client s key w =
     (let name = cleanKey key keyPrefix; (r, w') = SecretGet client (StorageNs s) name w
      in (is_Ok r, w'))"

definition new_secret :: "string \<Rightarrow> bytes \<Rightarrow> StoredSecret" where
  "new_secret key value =
     \<lparr>SecretObjName = cleanKey key keyPrefix, SecretLabels = matchLabels,
      SecretObjData = [(''value'', value)], Created = 0\<rparr>"

definition SecretStorage_Store :: "'w SecretClient \<Rightarrow> SecretStorage \<Rightarrow> string \<Rightarrow> bytes \<Rightarrow> 'w \<Rightarrow> unit result \<times> 'w" where
  "SecretStorage_Store client s key value w =
     (let se = new_secret key value; (r, w1) = SecretCreate client (StorageNs s) se w
      in case r of
           Ok _ \<Rightarrow> (Ok (), w1)
         | Panic p \<Rightarrow> (Panic p, w1)
         | Err e \<Rightarrow>
             if IsAlreadyExists e then
               (case SecretUpdate client (StorageNs s) se w1 of
                  (Ok _, w2) \<Rightarrow> (Ok (), w2)
                | (Err e, w2) \<Rightarrow> (Err e, w2)
                | (Panic p, w2) \<Rightarrow> (Panic p, w2))
             else (Err e, w1))"

definition SecretStorage_Load :: "'w SecretClient \<Rightarrow> SecretStorage \<Rightarrow> string \<Rightarrow> 'w \<Rightarrow> bytes result \<times> 'w" where
  "SecretStorage_Load client s key w =
     (case SecretGet client (StorageNs s) (cleanKey key keyPrefix) w of
        (Ok secret, w') \<Rightarrow> (Ok (secret_value secret), w')
      | (Err e, w') \<Rightarrow> (Err (if IsNotFound e then ErrNotExist else e), w')
      | (Panic p, w') \<Rightarrow> (Panic p, w'))"

definition SecretStorage_Delete :: "'w SecretClient \<Rightarrow> SecretStorage \<Rightarrow> string \<Rightarrow> 'w \<Rightarrow> unit result \<times> 'w" where
  "SecretStorage_Delete client s key w = SecretDelete client (StorageNs s) (cleanKey key keyPrefix) w"

definition SecretStorage_List ::
  "'w SecretClient \<Rightarrow> SecretStorage \<Rightarrow> string \<Rightarrow> bool \<Rightarrow> 'w \<Rightarrow> string list result \<times> 'w" where
  "SecretStorage_List client s pre recursive w =
     (case SecretList client (StorageNs s) matchLabels w of
        (Ok secrets, w') \<Rightarrow>
          (Ok (map (\<lambda>key. TrimPrefix key keyPrefix)
                 (filter (\<lambda>key. HasPrefix key (cleanKey pre keyPrefix)) (map SecretObjName secrets))), w')
      | (Err e, w') \<Rightarrow> (Err e, w')
      | (Panic p, w') \<Rightarrow> (Panic p, w'))"

record KeyInfo =
  InfoKey :: string
  Modified :: int
  InfoSize :: int
  IsTerminal :: bool

definition SecretStorage_Stat :: "'w SecretClient \<Rightarrow> SecretStorage \<Rightarrow> string \<Rightarrow> 'w \<Rightarrow> KeyInfo result \<times> 'w" where
  "SecretStorage_Stat client s key w =
     (case SecretGet client (StorageNs s) (cleanKey key keyPrefix) w of
        (Ok secret, w') \<Rightarrow>
          (Ok \<lparr>InfoKey = key, Modified = Created secret, InfoSize = int (length (secret_value secret)),
               IsTerminal = False\<rparr>, w')
      | (Err e, w') \<Rightarrow> (Err e, w')
      | (Panic p, w') \<Rightarrow> (Panic p, w'))"

section \<open>The contract of the API server\<close>

locale secret_api =
  fixes client :: "'w SecretClient"
    and view :: "'w \<Rightarrow> string \<times> string \<Rightarrow> StoredSecret option"
  assumes view_name: "view w (ns, n) = Some s \<Longrightarrow> SecretObjName s = n"
    and get_Ok: "SecretGet client ns n w = (Ok s, w') \<Longrightarrow> view w (ns, n) = Some s"
    and get_NotFound: "SecretGet client ns n w = (Err e, w') \<Longrightarrow> IsNotFound e \<Longrightarrow> view w (ns, n) = None"
    and get_Err: "SecretGet client ns n w = (Err e, w') \<Longrightarrow> e \<noteq> ErrNotExist"
    and get_view: "SecretGet client ns n w = (r, w') \<Longrightarrow> view w' = view w"
    and create_Ok: "SecretCreate client ns s w = (Ok s', w') \<Longrightarrow>
      view w (ns, SecretObjName s) = None \<and>
      (\<exists>t. view w' = (view w)((ns, SecretObjName s) \<mapsto> s\<lparr>Created := t\<rparr>))"
    and create_Err: "SecretCreate client ns s w = (Err e, w') \<Longrightarrow>
      view w' = view w \<and> (IsAlreadyExists e \<longrightarrow> view w (ns, SecretObjName s) \<noteq> None) \<or>
      \<not> IsAlreadyExists e \<and> view w (ns, SecretObjName s) = None \<and>
      (\<exists>t. view w' = (view w)((ns, SecretObjName s) \<mapsto> s\<lparr>Created := t\<rparr>))"
    and update_Ok: "SecretUpdate client ns s w = (Ok s', w') \<Longrightarrow>
      (\<exists>old. view w (ns, SecretObjName s) = Some old \<and>
        view w' = (view w)((ns, SecretObjName s) \<mapsto> s\<lparr>Created := Created old\<rparr>))"
    and update_Err: "SecretUpdate client ns s w = (Err e, w') \<Longrightarrow>
      view w' = view w \<or>
      (\<exists>t. view w' = (view w)((ns, SecretObjName s) \<mapsto> s\<lparr>Created := t\<rparr>))"
    and delete_Ok: "SecretDelete client ns n w = (Ok u, w') \<Longrightarrow>
      view w (ns, n) \<noteq> None \<and> view w' = (view w)((ns, n) := None)"
    and delete_Err: "SecretDelete client ns n w = (Err e, w') \<Longrightarrow>
      view w' = view w \<or> view w' = (view w)((ns, n) := None)"
    and list_Ok: "SecretList client ns sel w = (Ok ss, w') \<Longrightarrow>
      set ss = {s. \<exists>n. view w (ns, n) = Some s \<and> selector_matches sel (SecretLabels s)}"
    and list_view: "SecretList client ns sel w = (rs, w') \<Longrightarrow> view w' = view w"
    and no_panic: "fst (SecretGet client ns n w) \<noteq> Panic p" "fst (SecretCreate client ns s w) \<noteq> Panic p"
      "fst (SecretUpdate client ns s w) \<noteq> Panic p" "fst (SecretDelete client ns n w) \<noteq> Panic p"
      "fst (SecretList client ns sel w) \<noteq> Panic p"

section \<open>The contract of a storage\<close>

datatype storage_op = StoreOp string bytes | DeleteOp string

text \<open>The specification: a map from canonical keys to values.\<close>

fun spec_op :: "(string \<Rightarrow> 'n) \<Rightarrow> storage_op \<Rightarrow> ('n \<Rightarrow> bytes option) \<Rightarrow> 'n \<Rightarrow> bytes option" where
  "spec_op canon (StoreOp k v) m = m(canon k \<mapsto> v)"
| "spec_op canon (DeleteOp k) m = m(canon k := None)"

fun exec_op ::
  "(string \<Rightarrow> bytes \<Rightarrow> 'w \<Rightarrow> unit result \<times> 'w) \<Rightarrow> (string \<Rightarrow> 'w \<Rightarrow> unit result \<times> 'w) \<Rightarrow>
     storage_op \<Rightarrow> 'w \<Rightarrow> unit result \<times> 'w" where
  "exec_op store delete (StoreOp k v) w = store k v w"
| "exec_op store delete (DeleteOp k) w = delete k w"

text \<open>A caller that goes on after a failed operation: the results are collected.\<close>

fun exec_ops ::
  "(string \<Rightarrow> bytes \<Rightarrow> 'w \<Rightarrow> unit result \<times> 'w) \<Rightarrow> (string \<Rightarrow> 'w \<Rightarrow> unit result \<times> 'w) \<Rightarrow>
     storage_op list \<Rightarrow> 'w \<Rightarrow> unit result list \<times> 'w" where
  "exec_ops store delete [] w = ([], w)"
| "exec_ops store delete (op # ops) w =
     (let (r, w1) = exec_op store delete op w; (rs, w2) = exec_ops store delete ops w1 in (r # rs, w2))"

locale certmagic_storage =
  fixes store :: "string \<Rightarrow> bytes \<Rightarrow> 'w \<Rightarrow> unit result \<times> 'w"
    and load :: "string \<Rightarrow> 'w \<Rightarrow> bytes result \<times> 'w"
    and delete :: "string \<Rightarrow> 'w \<Rightarrow> unit result \<times> 'w"
    and content :: "'w \<Rightarrow> 'n \<Rightarrow> bytes option"
    and canon :: "string \<Rightarrow> 'n"
  assumes store_Ok: "store k v w = (Ok u, w') \<Longrightarrow> content w' = (content w)(canon k \<mapsto> v)"
    and store_Err: "store k v w = (Err e, w') \<Longrightarrow>
      content w' = content w \<or> content w' = (content w)(canon k \<mapsto> v)"
    and load_Ok: "load k w = (Ok v, w') \<Longrightarrow> content w (canon k) = Some v"
    and load_NotExist: "load k w = (Err ErrNotExist, w') \<Longrightarrow> content w (canon k) = None"
    and load_content: "load k w = (r, w') \<Longrightarrow> content w' = content w"
    and delete_Ok: "delete k w = (Ok u, w') \<Longrightarrow> content w' = (content w)(canon k := None)"
    and delete_Err: "delete k w = (Err e, w') \<Longrightarrow>
      content w' = content w \<or> content w' = (content w)(canon k := None)"
    and no_panics: "fst (store k v w) \<noteq> Panic p" "fst (load k w) \<noteq> Panic p" "fst (delete k w) \<noteq> Panic p"
begin

lemma load_after_store:
  assumes "store k v w = (Ok u, w1)" and "load k' w1 = (r, w2)" and "canon k' = canon k"
  shows "r = Ok v \<or> (\<exists>e. r = Err e \<and> e \<noteq> ErrNotExist)"
  using assms store_Ok [OF assms(1)] load_Ok [of k' w1] load_NotExist [of k' w1] no_panics(2) [of k' w1]
  by (cases r) auto

text \<open>One operation follows the specification, or fails and has followed it or done nothing.\<close>

lemma exec_op_spec:
  assumes "exec_op store delete op w = (r, w')"
  shows "content w' = spec_op canon op (content w) \<or> (\<exists>e. r = Err e) \<and> content w' = content w"
proof (cases op)
  case (StoreOp k v)
  with assms store_Ok store_Err no_panics(1) [of k v w] show ?thesis by (cases r) fastforce+
next
  case (DeleteOp k)
  with assms delete_Ok delete_Err no_panics(3) [of k w] show ?thesis by (cases r) fastforce+
qed

text \<open>
  A sequence of operations leaves what the specification leaves for some of them: all that were
  reported as done, and some of those that were reported as failed.
\<close>

lemma exec_ops_spec:
  assumes "exec_ops store delete ops w = (rs, w')"
  shows "\<exists>applied. length applied = length ops \<and>
     (\<forall>i < length ops. is_Ok (rs ! i) \<longrightarrow> applied ! i) \<and>
     content w' = fold (spec_op canon) (map fst (filter snd (zip ops applied))) (content w)"
  using assms
proof (induction ops arbitrary: w rs)
  case Nil
  then show ?case by simp
next
  case (Cons op ops)
  obtain r w1 where step: "exec_op store delete op w = (r, w1)" by fastforce
  obtain rs' where rest: "exec_ops store delete ops w1 = (rs', w')" and rs: "rs = r # rs'"
    using Cons.prems step by (auto split: prod.splits)
  from Cons.IH [OF rest] obtain applied where applied: "length applied = length ops"
    "\<forall>i < length ops. is_Ok (rs' ! i) \<longrightarrow> applied ! i"
    "content w' = fold (spec_op canon) (map fst (filter snd (zip ops applied))) (content w1)" by blast
  from exec_op_spec [OF step] show ?case
  proof
    assume "content w1 = spec_op canon op (content w)"
    with applied rs show ?thesis by (intro exI [of _ "True # applied"]) (auto simp: nth_Cons split: nat.splits)
  next
    assume "(\<exists>e. r = Err e) \<and> content w1 = content w"
    with applied rs show ?thesis by (intro exI [of _ "False # applied"]) (auto simp: nth_Cons split: nat.splits)
  qed
qed

end

section \<open>The storage provides its contract\<close>

text \<open>The values of a namespace by the names of their secrets.\<close>

definition content_of ::
  "('w \<Rightarrow> string \<times> string \<Rightarrow> StoredSecret option) \<Rightarrow> SecretStorage \<Rightarrow> 'w \<Rightarrow> string \<Rightarrow> bytes option" where
  "content_of view s w name = map_option secret_value (view w (StorageNs s, name))"

definition key_name :: "string \<Rightarrow> string" where
  "key_name key = cleanKey key keyPrefix"

lemma content_of_update:
  "view w' = (view w)((StorageNs s, n) := x) \<Longrightarrow>
     content_of view s w' = (content_of view s w)(n := map_option secret_value x)"
  by (auto simp: content_of_def fun_eq_iff)

lemma content_of_same: "view w' = view w \<Longrightarrow> content_of view s w' = content_of view s w"
  by (simp add: content_of_def fun_eq_iff)

lemma new_secret_value [simp]: "secret_value (new_secret key v\<lparr>Created := t\<rparr>) = v"
  by (simp add: new_secret_def secret_value_def)

lemma new_secret_name [simp]: "SecretObjName (new_secret key v) = key_name key"
  by (simp add: new_secret_def key_name_def)

context secret_api
begin

lemma Store_Ok:
  assumes "SecretStorage_Store client s k v w = (Ok u, w')"
  shows "\<exists>t. view w' = (view w)((StorageNs s, key_name k) \<mapsto> new_secret k v\<lparr>Created := t\<rparr>)"
proof -
  obtain r w1 where c: "SecretCreate client (StorageNs s) (new_secret k v) w = (r, w1)" by fastforce
  show ?thesis
  proof (cases r)
    case (Ok x)
    with c assms create_Ok [of "StorageNs s" "new_secret k v" w x w1] show ?thesis
      by (auto simp: SecretStorage_Store_def)
  next
    case (Err e)
    with c assms have e: "IsAlreadyExists e"
      and u: "\<exists>x. SecretUpdate client (StorageNs s) (new_secret k v) w1 = (Ok x, w')"
      by (auto simp: SecretStorage_Store_def split: if_splits prod.splits result.splits)
    from create_Err [OF c [unfolded Err]] e have "view w1 = view w" by blast
    with u show ?thesis using update_Ok by fastforce
  next
    case (Panic p)
    with c no_panic(2) [of "StorageNs s" "new_secret k v" w p] show ?thesis by simp
  qed
qed

lemma Store_Err:
  assumes "SecretStorage_Store client s k v w = (Err e, w')"
  shows "view w' = view w \<or>
     (\<exists>t. view w' = (view w)((StorageNs s, key_name k) \<mapsto> new_secret k v\<lparr>Created := t\<rparr>))"
proof -
  obtain r w1 where c: "SecretCreate client (StorageNs s) (new_secret k v) w = (r, w1)" by fastforce
  show ?thesis
  proof (cases r)
    case (Ok x)
    with c assms show ?thesis by (simp add: SecretStorage_Store_def)
  next
    case (Err e1)
    show ?thesis
    proof (cases "IsAlreadyExists e1")
      case True
      with c Err assms obtain e2 where u: "SecretUpdate client (StorageNs s) (new_secret k v) w1 = (Err e2, w')"
        by (auto simp: SecretStorage_Store_def split: prod.splits result.splits)
      from create_Err [OF c [unfolded Err]] True have "view w1 = view w" by blast
      with update_Err [OF u] show ?thesis by simp
    next
      case False
      with c Err assms have "w' = w1" by (simp add: SecretStorage_Store_def)
      with create_Err [OF c [unfolded Err]] show ?thesis by auto
    qed
  next
    case (Panic p)
    with c no_panic(2) [of "StorageNs s" "new_secret k v" w p] show ?thesis by simp
  qed
qed

lemma Store_no_panic: "fst (SecretStorage_Store client s k v w) \<noteq> Panic p"
  using no_panic(2) [of "StorageNs s" "new_secret k v" w] no_panic(3) [of "StorageNs s" "new_secret k v"]
  by (auto simp: SecretStorage_Store_def Let_def split: prod.split result.split) (metis fst_conv)+

end

sublocale secret_api \<subseteq> storage: certmagic_storage
  "SecretStorage_Store client s" "SecretStorage_Load client s" "SecretStorage_Delete client s"
  "content_of view s" key_name for s
proof
  fix k v w w' u e r p
  show "content_of view s w' = (content_of view s w)(key_name k \<mapsto> v)"
    if "SecretStorage_Store client s k v w = (Ok u, w')" 
    using Store_Ok [OF that] by (auto dest: content_of_update)
  show "content_of view s w' = content_of view s w \<or> content_of view s w' = (content_of view s w)(key_name k \<mapsto> v)"
    if "SecretStorage_Store client s k v w = (Err e, w')"
    using Store_Err [OF that] by (auto dest: content_of_update content_of_same)
  show "content_of view s w (key_name k) = Some v" if "SecretStorage_Load client s k w = (Ok v, w')"
    using that get_Ok [of "StorageNs s" "key_name k" w]
    by (auto simp: SecretStorage_Load_def content_of_def key_name_def split: prod.splits result.splits)
  show "content_of view s w (key_name k) = None" if "SecretStorage_Load client s k w = (Err ErrNotExist, w')"
    using that get_NotFound [of "StorageNs s" "key_name k" w] get_Err [of "StorageNs s" "key_name k" w]
    by (auto simp: SecretStorage_Load_def content_of_def key_name_def split: prod.splits result.splits if_splits)
  show "content_of view s w' = content_of view s w" if "SecretStorage_Load client s k w = (r, w')"
    using that get_view [of "StorageNs s" "key_name k" w]
    by (auto simp: SecretStorage_Load_def key_name_def intro!: content_of_same split: prod.splits result.splits)
  show "content_of view s w' = (content_of view s w)(key_name k := None)"
    if "SecretStorage_Delete client s k w = (Ok u, w')"
    using that delete_Ok [of "StorageNs s" "key_name k" w u w']
    by (auto simp: SecretStorage_Delete_def key_name_def dest: content_of_update)
  show "content_of view s w' = content_of view s w \<or> content_of view s w' = (content_of view s w)(key_name k := None)"
    if "SecretStorage_Delete client s k w = (Err e, w')"
    using that delete_Err [of "StorageNs s" "key_name k" w e w']
    by (auto simp: SecretStorage_Delete_def key_name_def dest: content_of_update content_of_same)
  show "fst (SecretStorage_Store client s k v w) \<noteq> Panic p" by (rule Store_no_panic)
  show "fst (SecretStorage_Load client s k w) \<noteq> Panic p"
    using no_panic(1) [of "StorageNs s" "key_name k" w]
    by (auto simp: SecretStorage_Load_def key_name_def split: prod.split result.split) (metis fst_conv)
  show "fst (SecretStorage_Delete client s k w) \<noteq> Panic p"
    using no_panic(4) [of "StorageNs s" "key_name k" w] by (simp add: SecretStorage_Delete_def key_name_def)
qed

text \<open>The facts of the storage contract, for a client with the contract of the API server.\<close>

context secret_api
begin

lemmas storage_exec_ops = storage.exec_ops_spec
lemmas storage_load_after_store = storage.load_after_store

end

section \<open>An in-memory client\<close>

text \<open>
  The secrets of all namespaces in a list, and a list of faults: a request that finds \<open>True\<close> at
  its head times out without effect.
\<close>

type_synonym mem_world = "(string \<times> StoredSecret) list \<times> bool list"

definition mem_find :: "(string \<times> StoredSecret) list \<Rightarrow> string \<times> string \<Rightarrow> StoredSecret option" where
  "mem_find st key = map_option snd (List.find (\<lambda>(ns, s). (ns, SecretObjName s) = key) st)"

definition mem_remove :: "string \<times> string \<Rightarrow> (string \<times> StoredSecret) list \<Rightarrow> (string \<times> StoredSecret) list" where
  "mem_remove key st = filter (\<lambda>(ns, s). (ns, SecretObjName s) \<noteq> key) st"

fun mem_request ::
  "((string \<times> StoredSecret) list \<Rightarrow> 'a result \<times> (string \<times> StoredSecret) list) \<Rightarrow>
     mem_world \<Rightarrow> 'a result \<times> mem_world" where
  "mem_request f (st, True # faults) = (Err (ErrorString ''timeout''), (st, faults))"
| "mem_request f (st, False # faults) = (let (r, st') = f st in (r, (st', faults)))"
| "mem_request f (st, []) = (let (r, st') = f st in (r, (st', [])))"

definition mem_client :: "mem_world SecretClient" where
  "mem_client =
     \<lparr>SecretGet = \<lambda>ns n. mem_request (\<lambda>st. case mem_find st (ns, n) of
          None \<Rightarrow> (Err (APIStatus NotFound), st) | Some s \<Rightarrow> (Ok s, st)),
      SecretCreate = \<lambda>ns s. mem_request (\<lambda>st. case mem_find st (ns, SecretObjName s) of
          None \<Rightarrow> (Ok s, (ns, s) # st) | Some _ \<Rightarrow> (Err (APIStatus AlreadyExists), st)),
      SecretUpdate = \<lambda>ns s. mem_request (\<lambda>st. case mem_find st (ns, SecretObjName s) of
          None \<Rightarrow> (Err (APIStatus NotFound), st)
        | Some old \<Rightarrow>
            (Ok s, (ns, s\<lparr>Created := Created old\<rparr>) # mem_remove (ns, SecretObjName s) st)),
      SecretDelete = \<lambda>ns n. mem_request (\<lambda>st. case mem_find st (ns, n) of
          None \<Rightarrow> (Err (APIStatus NotFound), st) | Some _ \<Rightarrow> (Ok (), mem_remove (ns, n) st)),
      SecretList = \<lambda>ns sel. mem_request (\<lambda>st.
          (Ok (map snd (filter (\<lambda>(ns', s). ns' = ns \<and> selector_matches sel (SecretLabels s) \<and>
                 mem_find st (ns, SecretObjName s) = Some s) st)), st))\<rparr>"

definition mem_view :: "mem_world \<Rightarrow> string \<times> string \<Rightarrow> StoredSecret option" where
  "mem_view w = mem_find (fst w)"

lemma mem_request_cases:
  assumes "mem_request f w = (r, w')"
  obtains (fault) "r = Err (ErrorString ''timeout'')" "fst w' = fst w"
  | (run) "f (fst w) = (r, fst w')"
  using assms by (cases "(f, w)" rule: mem_request.cases) (auto split: prod.splits)

lemma mem_request_no_panic: "(\<And>st. fst (f st) \<noteq> Panic p) \<Longrightarrow> fst (mem_request f w) \<noteq> Panic p"
  by (cases "(f, w)" rule: mem_request.cases) (simp_all add: case_prod_beta)

lemma mem_find_name: "mem_find st (ns, n) = Some s \<Longrightarrow> SecretObjName s = n \<and> (ns, s) \<in> set st"
  by (auto simp: mem_find_def dest: find_Some_in)

lemma mem_find_Cons: "mem_find ((ns, s) # st) = (mem_find st)((ns, SecretObjName s) \<mapsto> s)"
  by (auto simp: mem_find_def fun_eq_iff)

lemma mem_find_remove: "mem_find (mem_remove key st) = (mem_find st)(key := None)"
proof (induction st)
  case Nil
  then show ?case by (simp add: mem_find_def mem_remove_def fun_eq_iff)
next
  case (Cons x st)
  obtain ns s where x: "x = (ns, s)" by fastforce
  show ?case
  proof (cases "(ns, SecretObjName s) = key")
    case True
    then have "mem_remove key (x # st) = mem_remove key st" by (simp add: mem_remove_def x)
    with Cons True show ?thesis by (auto simp: x mem_find_Cons fun_eq_iff)
  next
    case False
    then have "mem_remove key (x # st) = (ns, s) # mem_remove key st" by (simp add: mem_remove_def x)
    with Cons False show ?thesis by (auto simp: x mem_find_Cons fun_eq_iff)
  qed
qed

lemma Created_same [simp]: "(s::StoredSecret)\<lparr>Created := Created s\<rparr> = s"
  by simp

interpretation mem_api: secret_api mem_client mem_view
proof
  fix w w' :: mem_world and ns n e p u sel and s s' :: StoredSecret and r rs ss
  show "SecretObjName s = n" if "mem_view w (ns, n) = Some s"
    using that by (simp add: mem_view_def mem_find_name)
  show "mem_view w (ns, n) = Some s" if "SecretGet mem_client ns n w = (Ok s, w')"
    using that by (auto simp: mem_client_def mem_view_def split: option.splits elim!: mem_request_cases)
  show "mem_view w (ns, n) = None" if "SecretGet mem_client ns n w = (Err e, w')" "IsNotFound e"
    using that by (auto simp: mem_client_def mem_view_def split: option.splits elim!: mem_request_cases)
  show "e \<noteq> ErrNotExist" if "SecretGet mem_client ns n w = (Err e, w')"
    using that by (auto simp: mem_client_def split: option.splits elim!: mem_request_cases)
  show "mem_view w' = mem_view w" if "SecretGet mem_client ns n w = (r, w')"
    using that by (auto simp: mem_client_def mem_view_def split: option.splits elim!: mem_request_cases)
  show "mem_view w (ns, SecretObjName s) = None \<and>
      (\<exists>t. mem_view w' = (mem_view w)((ns, SecretObjName s) \<mapsto> s\<lparr>Created := t\<rparr>))"
    if "SecretCreate mem_client ns s w = (Ok s', w')"
    using that by (auto simp: mem_client_def mem_view_def mem_find_Cons split: option.splits
        elim!: mem_request_cases intro!: exI [of _ "Created s"] dest!: sym [of "_ # _"])
  show "mem_view w' = mem_view w \<and> (IsAlreadyExists e \<longrightarrow> mem_view w (ns, SecretObjName s) \<noteq> None) \<or>
      \<not> IsAlreadyExists e \<and> mem_view w (ns, SecretObjName s) = None \<and>
      (\<exists>t. mem_view w' = (mem_view w)((ns, SecretObjName s) \<mapsto> s\<lparr>Created := t\<rparr>))"
    if "SecretCreate mem_client ns s w = (Err e, w')"
    using that by (auto simp: mem_client_def mem_view_def split: option.splits elim!: mem_request_cases)
  show "\<exists>old. mem_view w (ns, SecretObjName s) = Some old \<and>
        mem_view w' = (mem_view w)((ns, SecretObjName s) \<mapsto> s\<lparr>Created := Created old\<rparr>)"
    if "SecretUpdate mem_client ns s w = (Ok s', w')"
    using that by (auto simp: mem_client_def mem_view_def mem_find_Cons mem_find_remove split: option.splits
        elim!: mem_request_cases dest!: sym [of "_ # _"])
  show "mem_view w' = mem_view w \<or>
      (\<exists>t. mem_view w' = (mem_view w)((ns, SecretObjName s) \<mapsto> s\<lparr>Created := t\<rparr>))"
    if "SecretUpdate mem_client ns s w = (Err e, w')"
    using that by (auto simp: mem_client_def mem_view_def split: option.splits elim!: mem_request_cases)
  show "mem_view w (ns, n) \<noteq> None \<and> mem_view w' = (mem_view w)((ns, n) := None)"
    if "SecretDelete mem_client ns n w = (Ok u, w')"
    using that by (auto simp: mem_client_def mem_view_def split: option.splits
        elim!: mem_request_cases dest!: sym [of "mem_remove _ _"] simp: mem_find_remove)
  show "mem_view w' = mem_view w \<or> mem_view w' = (mem_view w)((ns, n) := None)"
    if "SecretDelete mem_client ns n w = (Err e, w')"
    using that by (auto simp: mem_client_def mem_view_def split: option.splits elim!: mem_request_cases)
  show "set ss = {s. \<exists>n. mem_view w (ns, n) = Some s \<and> selector_matches sel (SecretLabels s)}"
    if "SecretList mem_client ns sel w = (Ok ss, w')"
  proof -
    have "\<exists>st. fst w = st \<and> set ss =
        {s. (ns, s) \<in> set st \<and> selector_matches sel (SecretLabels s) \<and> mem_find st (ns, SecretObjName s) = Some s}"
      using that by (auto simp: mem_client_def image_iff Bex_def elim!: mem_request_cases)
    then show ?thesis using mem_find_name by (auto simp: mem_view_def)
  qed
  show "mem_view w' = mem_view w" if "SecretList mem_client ns sel w = (rs, w')"
    using that by (auto simp: mem_client_def mem_view_def elim!: mem_request_cases)
next
  fix w :: mem_world and ns n p sel and s :: StoredSecret
  show "fst (SecretGet mem_client ns n w) \<noteq> Panic p" "fst (SecretCreate mem_client ns s w) \<noteq> Panic p"
      "fst (SecretUpdate mem_client ns s w) \<noteq> Panic p" "fst (SecretDelete mem_client ns n w) \<noteq> Panic p"
      "fst (SecretList mem_client ns sel w) \<noteq> Panic p"
    unfolding mem_client_def by (simp_all, (rule mem_request_no_panic; simp split: option.split)+)
qed

section \<open>Properties of the storage\<close>

text \<open>
  C13. Over any API server that keeps its contract, a sequence of \<open>Store\<close> and \<open>Delete\<close> calls, some of
  which fail, leaves the map from secret names to values that the specification reaches by the
  calls that took effect: every call reported as done is among them, in order.
\<close>

theorem storage_refines_map:
  assumes "secret_api client view"
    and "exec_ops (SecretStorage_Store client s) (SecretStorage_Delete client s) ops w = (rs, w')"
  shows "\<exists>applied. length applied = length ops \<and>
     (\<forall>i < length ops. is_Ok (rs ! i) \<longrightarrow> applied ! i) \<and>
     content_of view s w' =
       fold (spec_op key_name) (map fst (filter snd (zip ops applied))) (content_of view s w)"
  using secret_api.storage_exec_ops [OF assms(1)] assms(2) by metis

definition sample_storage :: SecretStorage where
  "sample_storage = \<lparr>StorageNs = ''caddy-system'', LeaseID = ''test-instance''\<rparr>"

theorem storage_refines_map_witness:
  "\<exists>rs w'. exec_ops (SecretStorage_Store mem_client sample_storage)
       (SecretStorage_Delete mem_client sample_storage) [StoreOp ''a'' ''1'', DeleteOp ''a''] ([], []) = (rs, w') \<and>
     (\<exists>applied. length applied = 2 \<and> content_of mem_view sample_storage w' =
       fold (spec_op key_name) (map fst (filter snd (zip [StoreOp ''a'' ''1'', DeleteOp ''a''] applied)))
         (content_of mem_view sample_storage ([], [])))"
proof -
  obtain rs w' where run: "exec_ops (SecretStorage_Store mem_client sample_storage)
       (SecretStorage_Delete mem_client sample_storage) [StoreOp ''a'' ''1'', DeleteOp ''a''] ([], []) = (rs, w')"
    by (meson surj_pair)
  from storage_refines_map [OF mem_api.secret_api_axioms run] obtain applied where
    "length applied = length [StoreOp ''a'' ''1'', DeleteOp ''a'']" and "content_of mem_view sample_storage w' =
       fold (spec_op key_name) (map fst (filter snd (zip [StoreOp ''a'' ''1'', DeleteOp ''a''] applied)))
         (content_of mem_view sample_storage ([], []))"
    by blast
  moreover from this(1) have "length applied = 2" by simp
  ultimately show ?thesis using run by blast
qed

text \<open>
  C24. What was stored is loaded: after a \<open>Store\<close> that returned no error, a \<open>Load\<close> of a key with the
  same object name returns the stored value or fails with an error of the API server; it never
  reports that the key does not exist and never returns another value.
\<close>

theorem store_load_roundtrip:
  assumes "secret_api client view"
    and "SecretStorage_Store client s k v w = (Ok u, w1)"
    and "SecretStorage_Load client s k' w1 = (r, w2)"
    and "cleanKey k' keyPrefix = cleanKey k keyPrefix"
  shows "r = Ok v \<or> (\<exists>e. r = Err e \<and> e \<noteq> ErrNotExist)"
  using secret_api.storage_load_after_store [OF assms(1-3)] assms(4) by (simp add: key_name_def)

lemma mem_store_fresh:
  "SecretStorage_Store mem_client s k v ([], []) =
     (Ok (), ([(StorageNs s, new_secret k v)], []))"
  by (simp add: SecretStorage_Store_def mem_client_def mem_find_def)

theorem store_load_roundtrip_witness:
  "fst (SecretStorage_Load mem_client sample_storage ''A/b''
     (snd (SecretStorage_Store mem_client sample_storage ''a/B'' ''cert'' ([], [])))) = Ok ''cert''"
proof -
  have same: "cleanKey ''A/b'' keyPrefix = cleanKey ''a/B'' keyPrefix" by code_simp
  let ?w1 = "snd (SecretStorage_Store mem_client sample_storage ''a/B'' ''cert'' ([], []))"
  obtain r w2 where load: "SecretStorage_Load mem_client sample_storage ''A/b'' ?w1 = (r, w2)" by (meson surj_pair)
  have "SecretStorage_Store mem_client sample_storage ''a/B'' ''cert'' ([], []) = (Ok (), ?w1)"
    by (simp add: mem_store_fresh)
  from store_load_roundtrip [OF mem_api.secret_api_axioms this load same]
  have "r = Ok ''cert'' \<or> (\<exists>e. r = Err e \<and> e \<noteq> ErrNotExist)" .
  moreover have "r \<noteq> Err e" for e
    using load unfolding mem_store_fresh snd_conv
    by (auto simp: SecretStorage_Load_def mem_client_def mem_find_def same new_secret_def)
  ultimately show ?thesis using load by simp
qed

text \<open>
  C25. A listing that succeeds is complete and sound: it reports every stored key that extends the
  prefix asked for, in cleaned form, and what it reports is the name, without the storage's prefix,
  of a secret of the storage's namespace that carries its label and starts with the cleaned prefix.
\<close>

theorem list_complete_sound:
  assumes "secret_api client view"
    and "SecretStorage_List client s pre recursive w = (Ok keys, w')"
  shows "(\<forall>k se. view w (StorageNs s, key_name k) = Some se \<and> SecretLabels se = matchLabels \<and>
            HasPrefix k pre \<longrightarrow> TrimPrefix (key_name k) keyPrefix \<in> set keys) \<and>
         (\<forall>key \<in> set keys. \<exists>se. view w (StorageNs s, keyPrefix @ key) = Some se \<and>
            selector_matches matchLabels (SecretLabels se) \<and>
            HasPrefix (keyPrefix @ key) (cleanKey pre keyPrefix))"
proof -
  obtain secrets where l: "SecretList client (StorageNs s) matchLabels w = (Ok secrets, w')"
    and keys: "keys = map (\<lambda>key. TrimPrefix key keyPrefix)
       (filter (\<lambda>key. HasPrefix key (cleanKey pre keyPrefix)) (map SecretObjName secrets))"
    using assms(2) by (auto simp: SecretStorage_List_def split: prod.splits result.splits)
  note items = secret_api.list_Ok [OF assms(1) l] and name = secret_api.view_name [OF assms(1)]
  have own: "selector_matches matchLabels matchLabels" by (simp add: selector_matches_def matchLabels_def)
  have "TrimPrefix (key_name k) keyPrefix \<in> set keys"
    if "view w (StorageNs s, key_name k) = Some se" "SecretLabels se = matchLabels" "HasPrefix k pre" for k se
  proof -
    have "se \<in> set secrets" and "SecretObjName se = key_name k"
      using that items own name by auto
    moreover have "HasPrefix (key_name k) (cleanKey pre keyPrefix)"
      unfolding key_name_def by (rule cleanKey_prefix [OF that(3)])
    ultimately show ?thesis unfolding keys by force
  qed
  moreover have "\<exists>se. view w (StorageNs s, keyPrefix @ key) = Some se \<and>
      selector_matches matchLabels (SecretLabels se) \<and> HasPrefix (keyPrefix @ key) (cleanKey pre keyPrefix)"
    if key: "key \<in> set keys" for key
  proof -
    from key keys obtain se where se: "se \<in> set secrets" "key = TrimPrefix (SecretObjName se) keyPrefix"
      "HasPrefix (SecretObjName se) (cleanKey pre keyPrefix)" by auto
    then have full: "keyPrefix @ key = SecretObjName se"
      by (auto simp: cleanKey_eq HasPrefix_iff)
    from se(1) items name have "view w (StorageNs s, SecretObjName se) = Some se"
      and "selector_matches matchLabels (SecretLabels se)" by auto
    with se(3) full show ?thesis by auto
  qed
  ultimately show ?thesis by blast
qed

theorem list_complete_sound_witness:
  "\<exists>keys w'. SecretStorage_List mem_client sample_storage ''certs'' True
      (snd (SecretStorage_Store mem_client sample_storage ''certs/a'' ''x'' ([], []))) = (Ok keys, w') \<and>
     TrimPrefix (key_name ''certs/a'') keyPrefix \<in> set keys"
proof -
  let ?w = "([(StorageNs sample_storage, new_secret ''certs/a'' ''x'')], [])"
  obtain keys w' where list: "SecretStorage_List mem_client sample_storage ''certs'' True ?w = (Ok keys, w')"
    by (simp add: SecretStorage_List_def mem_client_def)
  have "mem_view ?w (StorageNs sample_storage, key_name ''certs/a'') = Some (new_secret ''certs/a'' ''x'')"
    by (simp add: mem_view_def mem_find_def)
  moreover have "SecretLabels (new_secret ''certs/a'' ''x'') = matchLabels" by (simp add: new_secret_def)
  moreover have "HasPrefix ''certs/a'' ''certs''" by (simp add: HasPrefix_def)
  ultimately show ?thesis
    using list_complete_sound [OF mem_api.secret_api_axioms list] list by (auto simp: mem_store_fresh)
qed

end
