(* ===== verification/Lease_Lock.thy ===== *)
theory Lease_Lock
  imports Secret_Storage
begin

text \<open>
  The locks of \<open>pkg/storage\<close>: a lock is a Kubernetes \<open>Lease\<close>, written through client-go's
  \<open>resourcelock.LeaseLock\<close>. \<open>LeaseLock\<close> and the API server are third-party code, the record
  \<open>LeaseClient\<close> of functions on the state \<open>'w\<close> of the world; \<open>lock.Get\<close> also returns the version of
  the lease it read, which \<open>lock.Update\<close> sends back (an update of another version is a conflict).
  What they document is the locale \<open>lease_api\<close>. Times are microseconds, the resolution of a lease.

  \<open>Lock\<close> waits in a loop; it is a \<open>partial_function\<close>, and that it returns is a theorem, under the
  laws of the clock and of \<open>time.After\<close> in the locale \<open>lock_clock\<close>.
\<close>

section \<open>Data\<close>

record LeaderElectionRecord =
  HolderIdentity :: string
  LeaseDurationSeconds :: int
  AcquireTime :: int
  RenewTime :: int
  LeaderTransitions :: int

definition leaseDuration :: int where
  "leaseDuration = 5 * 1000000"

definition leaseRenewInterval :: int where
  "leaseRenewInterval = 2 * 1000000"

definition leasePollInterval :: int where
  "leasePollInterval = 5 * 1000000"

definition lockAcquireTimeout :: int where
  "lockAcquireTimeout = 5 * 60 * 1000000"

record 'w LeaseClient =
  LeaseGet :: "string \<Rightarrow> string \<Rightarrow> 'w \<Rightarrow> (LeaderElectionRecord \<times> nat) result \<times> 'w"
  LeaseCreate :: "string \<Rightarrow> string \<Rightarrow> LeaderElectionRecord \<Rightarrow> 'w \<Rightarrow> unit result \<times> 'w"
  LeaseUpdate :: "string \<Rightarrow> string \<Rightarrow> nat \<Rightarrow> LeaderElectionRecord \<Rightarrow> 'w \<Rightarrow> unit result \<times> 'w"
  LeaseDelete :: "string \<Rightarrow> string \<Rightarrow> 'w \<Rightarrow> unit result \<times> 'w"

text \<open>The clock, and the wait of a \<open>select\<close> on a timer and \<open>ctx.Done()\<close>: true when the context is done.\<close>

record 'w LockEnv =
  Clock :: "'w \<Rightarrow> int"
  Wait :: "int \<Rightarrow> 'w \<Rightarrow> bool \<times> 'w"
  ContextErr :: "'w \<Rightarrow> bool"

section \<open>Acquiring and renewing\<close>

text \<open>The record a new lease gets, and the record that replaces the current one, if it may.\<close>

definition new_record :: "string \<Rightarrow> int \<Rightarrow> LeaderElectionRecord" where
  "new_record me now =
     \<lparr>HolderIdentity = me, LeaseDurationSeconds = 5, AcquireTime = now, RenewTime = now,
      LeaderTransitions = 0\<rparr>"

definition held_by_other :: "string \<Rightarrow> int \<Rightarrow> LeaderElectionRecord \<Rightarrow> bool" where
  "held_by_other me now currLer \<longleftrightarrow>
     HolderIdentity currLer \<noteq> [] \<and> now < RenewTime currLer + leaseDuration \<and>
     HolderIdentity currLer \<noteq> me"

definition renewed_record :: "string \<Rightarrow> int \<Rightarrow> LeaderElectionRecord \<Rightarrow> LeaderElectionRecord" where
  "renewed_record me now currLer =
     (let ler = new_record me now
      in if HolderIdentity currLer = me
         then ler\<lparr>AcquireTime := AcquireTime currLer, LeaderTransitions := LeaderTransitions currLer\<rparr>
         else ler\<lparr>LeaderTransitions := LeaderTransitions currLer + 1\<rparr>)"

text \<open>
  The boolean that the Go function returns beside an error is always true and never read; the
  value of \<open>Ok\<close> is the boolean it returns beside nil.
\<close>

definition tryAcquireOrRenew ::
  "'w LeaseClient \<Rightarrow> 'w LockEnv \<Rightarrow> SecretStorage \<Rightarrow> string \<Rightarrow> bool \<Rightarrow> 'w \<Rightarrow> bool result \<times> 'w" where
  "tryAcquireOrRenew client env s key shouldExist w =
     (let now = Clock env w; me = LeaseID s; (r, w1) = LeaseGet client (StorageNs s) key w
      in case r of
           Panic p \<Rightarrow> (Panic p, w1)
         | Err e \<Rightarrow>
             if \<not> IsNotFound e then (Err e, w1)
             else if shouldExist then (Ok True, w1)
             else (case LeaseCreate client (StorageNs s) key (new_record me now) w1 of
                     (Ok _, w2) \<Rightarrow> (Ok False, w2)
                   | (Err e, w2) \<Rightarrow> (Err e, w2)
                   | (Panic p, w2) \<Rightarrow> (Panic p, w2))
         | Ok (currLer, version) \<Rightarrow>
             if held_by_other me now currLer
             then (Err (Wrap (''held by '' @ HolderIdentity currLer) ErrLockHeld), w1)
             else (case LeaseUpdate client (StorageNs s) key version (renewed_record me now currLer) w1 of
                     (Ok _, w2) \<Rightarrow> (Ok False, w2)
                   | (Err e, w2) \<Rightarrow> (Err (Wrap ''failed to update lock'' e), w2)
                   | (Panic p, w2) \<Rightarrow> (Panic p, w2)))"

section \<open>The operations of the lock\<close>

text \<open>
  The result of \<open>Lock\<close> and \<open>TryLock\<close>: their Go result and, when the call started one, the lease
  that the new goroutine \<open>keepLockUpdated\<close> refreshes.
\<close>

record 'a lock_result =
  Returned :: "'a result"
  Refresher :: "string option"

text \<open>One turn of the loop of \<open>Lock\<close>: \<open>Inl\<close> is a return, \<open>Inr\<close> the world after the wait.\<close>

definition Lock_step ::
  "'w LeaseClient \<Rightarrow> 'w LockEnv \<Rightarrow> SecretStorage \<Rightarrow> string \<Rightarrow> int \<Rightarrow> 'w \<Rightarrow> (unit lock_result \<times> 'w) + 'w" where
  "Lock_step client env s leaseName start w =
     (case tryAcquireOrRenew client env s leaseName False w of
        (Ok _, w1) \<Rightarrow> Inl (\<lparr>Returned = Ok (), Refresher = Some leaseName\<rparr>, w1)
      | (Panic p, w1) \<Rightarrow> Inl (\<lparr>Returned = Panic p, Refresher = None\<rparr>, w1)
      | (Err e, w1) \<Rightarrow>
          if IsInvalid e \<or> IsBadRequest e
          then Inl (\<lparr>Returned = Err (Wrap (''acquiring lock '' @ leaseName) e), Refresher = None\<rparr>, w1)
          else if Clock env w1 - start \<ge> lockAcquireTimeout
          then Inl (\<lparr>Returned = Err (Wrap (''timed out waiting for lock '' @ leaseName) e), Refresher = None\<rparr>, w1)
          else (case Wait env leasePollInterval w1 of
                  (True, w2) \<Rightarrow> Inl (\<lparr>Returned = Err ContextDone, Refresher = None\<rparr>, w2)
                | (False, w2) \<Rightarrow> Inr w2))"

partial_function (option) Lock_loop ::
  "'w LeaseClient \<Rightarrow> 'w LockEnv \<Rightarrow> SecretStorage \<Rightarrow> string \<Rightarrow> int \<Rightarrow> 'w \<Rightarrow> (unit lock_result \<times> 'w) option" where
  "Lock_loop client env s leaseName start w =
     (case Lock_step client env s leaseName start w of
        Inl out \<Rightarrow> Some out
      | Inr w2 \<Rightarrow> Lock_loop client env s leaseName start w2)"

definition Lock ::
  "'w LeaseClient \<Rightarrow> 'w LockEnv \<Rightarrow> SecretStorage \<Rightarrow> string \<Rightarrow> 'w \<Rightarrow> (unit lock_result \<times> 'w) option" where
  "Lock client env s key w = Lock_loop client env s (cleanKey key leasePrefix) (Clock env w) w"

definition TryLock ::
  "'w LeaseClient \<Rightarrow> 'w LockEnv \<Rightarrow> SecretStorage \<Rightarrow> string \<Rightarrow> 'w \<Rightarrow> bool lock_result \<times> 'w" where
  "TryLock client env s key w =
     (let leaseName = cleanKey key leasePrefix
      in case tryAcquireOrRenew client env s leaseName False w of
           (Ok _, w1) \<Rightarrow> (\<lparr>Returned = Ok True, Refresher = Some leaseName\<rparr>, w1)
         | (Panic p, w1) \<Rightarrow> (\<lparr>Returned = Panic p, Refresher = None\<rparr>, w1)
         | (Err e, w1) \<Rightarrow>
             if errors_Is e ErrLockHeld \<or> IsAlreadyExists e
             then (\<lparr>Returned = Ok False, Refresher = None\<rparr>, w1)
             else (\<lparr>Returned = Err e, Refresher = None\<rparr>, w1))"

text \<open>One turn of the loop of \<open>keepLockUpdated\<close>, with the reason to stop if it stops.\<close>

datatype refresh = StopContextDone | StopLost | StopReleased | StopPanic panic | Continue

definition keepLockUpdated_step ::
  "'w LeaseClient \<Rightarrow> 'w LockEnv \<Rightarrow> SecretStorage \<Rightarrow> string \<Rightarrow> 'w \<Rightarrow> refresh \<times> 'w" where
  "keepLockUpdated_step client env s key w =
     (case Wait env leaseRenewInterval w of
        (True, w1) \<Rightarrow> (StopContextDone, w1)
      | (False, w1) \<Rightarrow>
          (case tryAcquireOrRenew client env s key True w1 of
             (Panic p, w2) \<Rightarrow> (StopPanic p, w2)
           | (Err e, w2) \<Rightarrow>
               if ContextErr env w2 then (StopContextDone, w2)
               else if errors_Is e ErrLockHeld then (StopLost, w2)
               else (Continue, w2)
           | (Ok released, w2) \<Rightarrow> if released then (StopReleased, w2) else (Continue, w2)))"

partial_function (option) keepLockUpdated ::
  "'w LeaseClient \<Rightarrow> 'w LockEnv \<Rightarrow> SecretStorage \<Rightarrow> string \<Rightarrow> 'w \<Rightarrow> (refresh \<times> 'w) option" where
  "keepLockUpdated client env s key w =
     (let (turn, w1) = keepLockUpdated_step client env s key w
      in if turn = Continue then keepLockUpdated client env s key w1 else Some (turn, w1))"

definition Unlock :: "'w LeaseClient \<Rightarrow> SecretStorage \<Rightarrow> string \<Rightarrow> 'w \<Rightarrow> unit result \<times> 'w" where
  "Unlock client s key w = LeaseDelete client (StorageNs s) (cleanKey key leasePrefix) w"

section \<open>The contract of the lease client\<close>

locale lease_api =
  fixes client :: "'w LeaseClient"
    and view :: "'w \<Rightarrow> string \<times> string \<Rightarrow> LeaderElectionRecord option"
  assumes get_Ok: "LeaseGet client ns n w = (Ok (rec, v), w') \<Longrightarrow> view w (ns, n) = Some rec"
    and get_NotFound: "LeaseGet client ns n w = (Err e, w') \<Longrightarrow> IsNotFound e \<Longrightarrow> view w (ns, n) = None"
    and get_view: "LeaseGet client ns n w = (r, w') \<Longrightarrow> view w' = view w"
    and get_Err: "LeaseGet client ns n w = (Err e, w') \<Longrightarrow> \<not> errors_Is e ErrLockHeld"
    and create_Ok: "LeaseCreate client ns n rec w = (Ok u, w') \<Longrightarrow>
      view w (ns, n) = None \<and> view w' = (view w)((ns, n) \<mapsto> rec)"
    and create_Err: "LeaseCreate client ns n rec w = (Err e, w') \<Longrightarrow>
      \<not> errors_Is e ErrLockHeld \<and>
      (view w' = view w \<or> view w (ns, n) = None \<and> view w' = (view w)((ns, n) \<mapsto> rec))"
    and update_Ok: "LeaseUpdate client ns n v rec w = (Ok u, w') \<Longrightarrow> view w' = (view w)((ns, n) \<mapsto> rec)"
    and update_Err: "LeaseUpdate client ns n v rec w = (Err e, w') \<Longrightarrow>
      \<not> errors_Is e ErrLockHeld \<and> (view w' = view w \<or> view w' = (view w)((ns, n) \<mapsto> rec))"
    and delete_Ok: "LeaseDelete client ns n w = (Ok u, w') \<Longrightarrow> view w' = (view w)((ns, n) := None)"
    and no_panic: "fst (LeaseGet client ns n w) \<noteq> Panic p" "fst (LeaseCreate client ns n rec w) \<noteq> Panic p"
      "fst (LeaseUpdate client ns n v rec w) \<noteq> Panic p" "fst (LeaseDelete client ns n w) \<noteq> Panic p"
begin

text \<open>The write a call may make: a new lease, or the renewal of one that is not held by another.\<close>

definition may_write :: "SecretStorage \<Rightarrow> string \<Rightarrow> bool \<Rightarrow> int \<Rightarrow> 'w \<Rightarrow> LeaderElectionRecord \<Rightarrow> bool" where
  "may_write s key shouldExist now w rec \<longleftrightarrow>
     (case view w (StorageNs s, key) of
        None \<Rightarrow> \<not> shouldExist \<and> rec = new_record (LeaseID s) now
      | Some old \<Rightarrow> \<not> held_by_other (LeaseID s) now old \<and> rec = renewed_record (LeaseID s) now old)"

text \<open>The ways a call can end, with what it did to the leases.\<close>

text \<open>
  What an attempt can come to: the lease is held by another, a request failed (and a write may have
  been carried out), the lease is gone, or the lease has been written.
\<close>

definition try_outcome :: "SecretStorage \<Rightarrow> string \<Rightarrow> bool \<Rightarrow> int \<Rightarrow> 'w \<Rightarrow> bool result \<Rightarrow> 'w \<Rightarrow> bool" where
  "try_outcome s key shouldExist now w r w' \<longleftrightarrow>
     (\<exists>rec e. r = Err e \<and> errors_Is e ErrLockHeld \<and> view w' = view w \<and>
        view w (StorageNs s, key) = Some rec \<and> held_by_other (LeaseID s) now rec) \<or>
     (\<exists>e. r = Err e \<and> \<not> errors_Is e ErrLockHeld \<and>
        (view w' = view w \<or>
         (\<exists>rec. may_write s key shouldExist now w rec \<and> view w' = (view w)((StorageNs s, key) \<mapsto> rec)))) \<or>
     (r = Ok True \<and> shouldExist \<and> view w (StorageNs s, key) = None \<and> view w' = view w) \<or>
     (\<exists>rec. r = Ok False \<and> may_write s key shouldExist now w rec \<and> view w' = (view w)((StorageNs s, key) \<mapsto> rec))"

lemma create_outcome:
  assumes "LeaseCreate client (StorageNs s) key rec w1 = (c, w2)" and "view w1 = view w"
    and "may_write s key shouldExist now w rec"
  shows "try_outcome s key shouldExist now w (bind_result c (\<lambda>u. Ok False)) w2"
proof (cases c)
  case (Ok u)
  with assms create_Ok [OF assms(1) [unfolded Ok]] show ?thesis by (auto simp: try_outcome_def)
next
  case (Err e)
  with assms create_Err [OF assms(1) [unfolded Err]] show ?thesis by (auto simp: try_outcome_def)
next
  case (Panic p)
  with assms(1) no_panic(2) [of "StorageNs s" key rec w1 p] show ?thesis by simp
qed

lemma update_outcome:
  assumes "LeaseUpdate client (StorageNs s) key v rec w1 = (c, w2)" and "view w1 = view w"
    and "may_write s key shouldExist now w rec"
  shows "try_outcome s key shouldExist now w
    (case c of Ok u \<Rightarrow> Ok False | Err e \<Rightarrow> Err (Wrap ''failed to update lock'' e) | Panic p \<Rightarrow> Panic p) w2"
proof (cases c)
  case (Ok u)
  with assms update_Ok [OF assms(1) [unfolded Ok]] show ?thesis by (auto simp: try_outcome_def)
next
  case (Err e)
  with assms update_Err [OF assms(1) [unfolded Err]] show ?thesis by (auto simp: try_outcome_def)
next
  case (Panic p)
  with assms(1) no_panic(3) [of "StorageNs s" key v rec w1 p] show ?thesis by simp
qed

lemma absent_outcome:
  assumes "tryAcquireOrRenew client env s key shouldExist w = (r, w')"
    and "LeaseGet client (StorageNs s) key w = (Err e, w1)"
  shows "try_outcome s key shouldExist (Clock env w) w r w'"
proof (cases "IsNotFound e \<and> \<not> shouldExist")
  case False
  with assms get_view [OF assms(2)] get_Err [OF assms(2)] get_NotFound [OF assms(2)] show ?thesis
    by (auto simp: tryAcquireOrRenew_def try_outcome_def split: if_splits)
next
  case True
  let ?new = "new_record (LeaseID s) (Clock env w)"
  obtain c w2 where c: "LeaseCreate client (StorageNs s) key ?new w1 = (c, w2)" by (meson surj_pair)
  have may: "may_write s key shouldExist (Clock env w) w ?new"
    using True get_NotFound [OF assms(2)] by (simp add: may_write_def)
  have "r = bind_result c (\<lambda>u. Ok False)" and "w' = w2"
    using True assms c by (cases c; simp add: tryAcquireOrRenew_def)+
  with create_outcome [OF c get_view [OF assms(2)] may] show ?thesis by simp
qed

lemma present_outcome:
  assumes "tryAcquireOrRenew client env s key shouldExist w = (r, w')"
    and "LeaseGet client (StorageNs s) key w = (Ok (rec, v), w1)"
  shows "try_outcome s key shouldExist (Clock env w) w r w'"
proof (cases "held_by_other (LeaseID s) (Clock env w) rec")
  case True
  with assms get_Ok [OF assms(2)] get_view [OF assms(2)] show ?thesis
    by (auto simp: tryAcquireOrRenew_def try_outcome_def)
next
  case False
  let ?new = "renewed_record (LeaseID s) (Clock env w) rec"
  obtain c w2 where c: "LeaseUpdate client (StorageNs s) key v ?new w1 = (c, w2)" by (meson surj_pair)
  have may: "may_write s key shouldExist (Clock env w) w ?new"
    using False get_Ok [OF assms(2)] by (simp add: may_write_def)
  have "r = (case c of Ok u \<Rightarrow> Ok False | Err e \<Rightarrow> Err (Wrap ''failed to update lock'' e) | Panic p \<Rightarrow> Panic p)"
    and "w' = w2"
    using False assms c by (cases c; simp add: tryAcquireOrRenew_def)+
  with update_outcome [OF c get_view [OF assms(2)] may] show ?thesis by simp
qed

lemma tryAcquireOrRenew_outcome:
  assumes "tryAcquireOrRenew client env s key shouldExist w = (r, w')"
  shows "try_outcome s key shouldExist (Clock env w) w r w'"
proof -
  obtain g w1 where g: "LeaseGet client (StorageNs s) key w = (g, w1)" by (meson surj_pair)
  then have "g \<noteq> Panic p" for p using no_panic(1) [of "StorageNs s" key w p] by simp
  then consider e where "g = Err e" | rec v where "g = Ok (rec, v)"
    by (cases g) (auto intro: prod.exhaust)
  then show ?thesis using assms g absent_outcome present_outcome by cases blast+
qed

lemma tryAcquireOrRenew_cases:
  assumes "tryAcquireOrRenew client env s key shouldExist w = (r, w')"
  obtains (held) rec e where "r = Err e" "errors_Is e ErrLockHeld" "view w' = view w"
      "view w (StorageNs s, key) = Some rec" "held_by_other (LeaseID s) (Clock env w) rec"
  | (failed) e where "r = Err e" "\<not> errors_Is e ErrLockHeld"
      "view w' = view w \<or>
       (\<exists>rec. may_write s key shouldExist (Clock env w) w rec \<and> view w' = (view w)((StorageNs s, key) \<mapsto> rec))"
  | (released) "r = Ok True" "shouldExist" "view w (StorageNs s, key) = None" "view w' = view w"
  | (acquired) rec where "r = Ok False" "may_write s key shouldExist (Clock env w) w rec"
      "view w' = (view w)((StorageNs s, key) \<mapsto> rec)"
  using tryAcquireOrRenew_outcome [OF assms] unfolding try_outcome_def
proof (elim disjE, goal_cases)
  case 1
  then show ?case by (elim exE conjE) (rule held)
next
  case 2
  then show ?case by (elim exE conjE) (rule failed)
next
  case 3
  then show ?case by (elim conjE) (rule released)
next
  case 4
  then show ?case by (elim exE conjE) (rule acquired)
qed

lemma may_write_mine:
  assumes "may_write s key shouldExist now w rec"
  shows "HolderIdentity rec = LeaseID s" and "RenewTime rec = now"
  using assms by (auto simp: may_write_def renewed_record_def new_record_def Let_def split: option.splits)

lemma held_blocks:
  assumes "tryAcquireOrRenew client env s key shouldExist w = (r, w')"
    and "view w (StorageNs s, key) = Some rec" and "held_by_other (LeaseID s) (Clock env w) rec"
  shows "(\<exists>e. r = Err e) \<and> view w' = view w"
  using assms by (cases rule: tryAcquireOrRenew_cases) (auto simp: may_write_def)

lemma acquired_mine:
  assumes "tryAcquireOrRenew client env s key shouldExist w = (Ok False, w')"
  shows "\<exists>rec. may_write s key shouldExist (Clock env w) w rec \<and> view w' = (view w)((StorageNs s, key) \<mapsto> rec)"
  using assms by (cases rule: tryAcquireOrRenew_cases) auto

lemma Lock_never_Ok_True: "tryAcquireOrRenew client env s key False w \<noteq> (Ok True, w')"
  by (auto elim: tryAcquireOrRenew_cases)

lemma tryAcquireOrRenew_no_panic: "tryAcquireOrRenew client env s key shouldExist w \<noteq> (Panic p, w')"
  by (auto elim: tryAcquireOrRenew_cases)

end

section \<open>The loop of \<open>Lock\<close> ends\<close>

text \<open>
  Time passes: no request turns the clock back, and a wait that is not cut short by the context
  takes as long as it was asked to.
\<close>

locale lock_clock = lease_api client view
  for client :: "'w LeaseClient" and view +
  fixes env :: "'w LockEnv"
  assumes get_clock: "Clock env w \<le> Clock env (snd (LeaseGet client ns n w))"
    and create_clock: "Clock env w \<le> Clock env (snd (LeaseCreate client ns n rec w))"
    and update_clock: "Clock env w \<le> Clock env (snd (LeaseUpdate client ns n v rec w))"
    and wait_clock: "Wait env d w = (False, w') \<Longrightarrow> Clock env w + d \<le> Clock env w'"
begin

lemma try_clock: "tryAcquireOrRenew client env s key shouldExist w = (r, w') \<Longrightarrow> Clock env w \<le> Clock env w'"
proof -
  obtain g w1 where g: "LeaseGet client (StorageNs s) key w = (g, w1)" by (meson surj_pair)
  have "Clock env w \<le> Clock env w1" using get_clock [of w "StorageNs s" key] g by simp
  moreover assume "tryAcquireOrRenew client env s key shouldExist w = (r, w')"
  with g have "w' = w1 \<or> (\<exists>rec. w' = snd (LeaseCreate client (StorageNs s) key rec w1)) \<or>
      (\<exists>v rec. w' = snd (LeaseUpdate client (StorageNs s) key v rec w1))"
    by (auto simp: tryAcquireOrRenew_def Let_def split: result.splits prod.splits if_splits)
      (metis snd_conv)+
  then have "Clock env w1 \<le> Clock env w'" using create_clock update_clock by auto
  ultimately show ?thesis by simp
qed

text \<open>A turn that goes on has waited, and the timeout was not reached before.\<close>

lemma Lock_step_Inr:
  assumes "Lock_step client env s leaseName start w = Inr w2"
  shows "Clock env w < start + lockAcquireTimeout \<and> Clock env w + leasePollInterval \<le> Clock env w2"
proof -
  obtain r w1 where t: "tryAcquireOrRenew client env s leaseName False w = (r, w1)" by (meson surj_pair)
  with assms have "Clock env w1 - start < lockAcquireTimeout" and "Wait env leasePollInterval w1 = (False, w2)"
    by (auto simp: Lock_step_def split: result.splits prod.splits if_splits bool.splits)
  with try_clock [OF t] wait_clock show ?thesis by fastforce
qed

lemma Lock_step_Inl:
  assumes "Lock_step client env s leaseName start w = Inl (out, w')"
  shows "(\<exists>rec. Returned out = Ok () \<and> Refresher out = Some leaseName \<and>
            view w' (StorageNs s, leaseName) = Some rec \<and> HolderIdentity rec = LeaseID s) \<or>
         (\<exists>e. Returned out = Err e \<and> Refresher out = None)"
proof -
  obtain r w1 where t: "tryAcquireOrRenew client env s leaseName False w = (r, w1)" by (meson surj_pair)
  show ?thesis
  proof (cases r)
    case (Ok b)
    with t have "b = False" using Lock_never_Ok_True [of env s leaseName w w1] by (cases b) auto
    with t Ok acquired_mine [of env s leaseName False w w1] may_write_mine(1) assms show ?thesis
      by (fastforce simp: Lock_step_def)
  next
    case (Err e)
    with t assms show ?thesis
      by (auto simp: Lock_step_def split: if_splits prod.splits bool.splits)
  next
    case (Panic p)
    with t tryAcquireOrRenew_no_panic show ?thesis by auto
  qed
qed

lemma Lock_loop_returns:
  "\<exists>out w'. Lock_loop client env s leaseName start w = Some (out, w') \<and>
     ((\<exists>rec. Returned out = Ok () \<and> Refresher out = Some leaseName \<and>
         view w' (StorageNs s, leaseName) = Some rec \<and> HolderIdentity rec = LeaseID s) \<or>
      (\<exists>e. Returned out = Err e \<and> Refresher out = None))"
proof (induction "nat (start + lockAcquireTimeout - Clock env w)" arbitrary: w rule: less_induct)
  case less
  show ?case
  proof (cases "Lock_step client env s leaseName start w")
    case (Inl out)
    obtain o' w' where "out = (o', w')" by (meson surj_pair)
    with Inl Lock_step_Inl [of s leaseName start w o' w'] show ?thesis
      by (subst Lock_loop.simps) auto
  next
    case (Inr w2)
    from Lock_step_Inr [OF this] have
      "nat (start + lockAcquireTimeout - Clock env w2) < nat (start + lockAcquireTimeout - Clock env w)"
      by (auto simp: leasePollInterval_def)
    from less [OF this] Inr show ?thesis
      by (subst Lock_loop.simps) simp
  qed
qed

text \<open>Turns of the refresher: it stops only with its context, or when the lease is no longer its own.\<close>

lemma keepLockUpdated_stops:
  assumes "keepLockUpdated_step client env s key w = (turn, w')"
  shows "case turn of
      StopContextDone \<Rightarrow> fst (Wait env leaseRenewInterval w) \<or> ContextErr env w'
    | StopReleased \<Rightarrow> view w' (StorageNs s, key) = None
    | StopLost \<Rightarrow> (\<exists>rec. view w' (StorageNs s, key) = Some rec \<and> HolderIdentity rec \<noteq> LeaseID s)
    | StopPanic p \<Rightarrow> False
    | Continue \<Rightarrow> \<not> fst (Wait env leaseRenewInterval w)"
proof -
  obtain b w1 where wait: "Wait env leaseRenewInterval w = (b, w1)" by (meson surj_pair)
  obtain r w2 where t: "tryAcquireOrRenew client env s key True w1 = (r, w2)" by (meson surj_pair)
  show ?thesis
  proof (cases b)
    case True
    with assms wait show ?thesis by (auto simp: keepLockUpdated_step_def)
  next
    case False
    from t show ?thesis
      by (cases rule: tryAcquireOrRenew_cases)
        (use assms wait t False in \<open>auto simp: keepLockUpdated_step_def held_by_other_def split: if_splits\<close>)
  qed
qed

end

section \<open>An in-memory lease server\<close>

record mem_leases =
  Leases :: "((string \<times> string) \<times> LeaderElectionRecord \<times> nat) list"
  NextVersion :: nat
  Time :: int
  Faults :: "bool list"

text \<open>Every request takes a millisecond; one that finds \<open>True\<close> at the head of the faults times out.\<close>

definition lease_request :: "(mem_leases \<Rightarrow> 'a result \<times> mem_leases) \<Rightarrow> mem_leases \<Rightarrow> 'a result \<times> mem_leases" where
  "lease_request f w =
     (let w1 = w\<lparr>Time := Time w + 1000, Faults := tl (Faults w)\<rparr>
      in if Faults w \<noteq> [] \<and> hd (Faults w) then (Err (ErrorString ''timeout''), w1) else f w1)"

definition write_lease :: "string \<times> string \<Rightarrow> LeaderElectionRecord \<Rightarrow> mem_leases \<Rightarrow> mem_leases" where
  "write_lease key rec w =
     w\<lparr>Leases := (key, rec, NextVersion w) # Leases w, NextVersion := NextVersion w + 1\<rparr>"

definition mem_lease_client :: "mem_leases LeaseClient" where
  "mem_lease_client =
     \<lparr>LeaseGet = \<lambda>ns n. lease_request (\<lambda>w. case map_of (Leases w) (ns, n) of
          None \<Rightarrow> (Err (APIStatus NotFound), w) | Some x \<Rightarrow> (Ok x, w)),
      LeaseCreate = \<lambda>ns n rec. lease_request (\<lambda>w. case map_of (Leases w) (ns, n) of
          None \<Rightarrow> (Ok (), write_lease (ns, n) rec w) | Some _ \<Rightarrow> (Err (APIStatus AlreadyExists), w)),
      LeaseUpdate = \<lambda>ns n v rec. lease_request (\<lambda>w. case map_of (Leases w) (ns, n) of
          None \<Rightarrow> (Err (APIStatus NotFound), w)
        | Some (_, v') \<Rightarrow>
            if v = v' then (Ok (), write_lease (ns, n) rec w) else (Err (APIStatus Conflict), w)),
      LeaseDelete = \<lambda>ns n. lease_request (\<lambda>w. case map_of (Leases w) (ns, n) of
          None \<Rightarrow> (Err (APIStatus NotFound), w)
        | Some _ \<Rightarrow> (Ok (), w\<lparr>Leases := filter (\<lambda>(k, x). k \<noteq> (ns, n)) (Leases w)\<rparr>))\<rparr>"

definition mem_lease_view :: "mem_leases \<Rightarrow> string \<times> string \<Rightarrow> LeaderElectionRecord option" where
  "mem_lease_view w key = map_option fst (map_of (Leases w) key)"

definition mem_env :: "mem_leases LockEnv" where
  "mem_env = \<lparr>Clock = Time, Wait = \<lambda>d w. (False, w\<lparr>Time := Time w + d\<rparr>), ContextErr = \<lambda>w. False\<rparr>"

lemma lease_request_cases:
  assumes "lease_request f w = (r, w')"
  obtains (fault) "r = Err (ErrorString ''timeout'')" "Leases w' = Leases w"
  | (run) w1 where "f w1 = (r, w')" "Leases w1 = Leases w"
  using assms by (auto simp: lease_request_def Let_def split: if_splits)

lemma map_of_filter_key: "map_of (filter (\<lambda>(k, x). k \<noteq> key) xs) = (map_of xs)(key := None)"
  by (induction xs) (auto simp: fun_eq_iff)

lemma mem_lease_view_write: "mem_lease_view (write_lease key rec w) = (mem_lease_view w)(key \<mapsto> rec)"
  by (auto simp: mem_lease_view_def write_lease_def fun_eq_iff)

lemma mem_lease_view_cong: "Leases w' = Leases w \<Longrightarrow> mem_lease_view w' = mem_lease_view w"
  by (simp add: mem_lease_view_def fun_eq_iff)

lemma lease_request_no_panic: "(\<And>w. fst (f w) \<noteq> Panic p) \<Longrightarrow> fst (lease_request f w) \<noteq> Panic p"
  by (simp add: lease_request_def Let_def)

lemma lease_request_time: "(\<And>w. Time w \<le> Time (snd (f w))) \<Longrightarrow> Time w \<le> Time (snd (lease_request f w))"
proof -
  let ?w1 = "w\<lparr>Time := Time w + 1000, Faults := tl (Faults w)\<rparr>"
  assume "\<And>w. Time w \<le> Time (snd (f w))"
  from this [of ?w1] show ?thesis by (simp add: lease_request_def Let_def)
qed

interpretation mem_lease: lock_clock mem_lease_client mem_lease_view mem_env
proof
  fix w w' :: mem_leases and ns n e p u v d and rec :: LeaderElectionRecord and r
  show "mem_lease_view w (ns, n) = Some rec" if "LeaseGet mem_lease_client ns n w = (Ok (rec, v), w')"
    using that by (auto simp: mem_lease_client_def mem_lease_view_def split: option.splits elim!: lease_request_cases)
  show "mem_lease_view w (ns, n) = None" if "LeaseGet mem_lease_client ns n w = (Err e, w')" "IsNotFound e"
    using that by (auto simp: mem_lease_client_def mem_lease_view_def split: option.splits elim!: lease_request_cases)
  show "mem_lease_view w' = mem_lease_view w" if "LeaseGet mem_lease_client ns n w = (r, w')"
    using that by (intro mem_lease_view_cong)
      (auto simp: mem_lease_client_def split: option.splits elim!: lease_request_cases)
  show "\<not> errors_Is e ErrLockHeld" if "LeaseGet mem_lease_client ns n w = (Err e, w')"
    using that by (auto simp: mem_lease_client_def split: option.splits elim!: lease_request_cases)
  show "mem_lease_view w (ns, n) = None \<and> mem_lease_view w' = (mem_lease_view w)((ns, n) \<mapsto> rec)"
    if "LeaseCreate mem_lease_client ns n rec w = (Ok u, w')"
    using that by (auto simp: mem_lease_client_def mem_lease_view_def write_lease_def fun_eq_iff
        split: option.splits elim!: lease_request_cases)
  show "\<not> errors_Is e ErrLockHeld \<and> (mem_lease_view w' = mem_lease_view w \<or>
      mem_lease_view w (ns, n) = None \<and> mem_lease_view w' = (mem_lease_view w)((ns, n) \<mapsto> rec))"
    if "LeaseCreate mem_lease_client ns n rec w = (Err e, w')"
    using that by (auto simp: mem_lease_client_def split: option.splits
        elim!: lease_request_cases dest!: mem_lease_view_cong)
  show "mem_lease_view w' = (mem_lease_view w)((ns, n) \<mapsto> rec)"
    if "LeaseUpdate mem_lease_client ns n v rec w = (Ok u, w')"
    using that by (auto simp: mem_lease_client_def mem_lease_view_write split: option.splits if_splits
        elim!: lease_request_cases dest!: mem_lease_view_cong)
  show "\<not> errors_Is e ErrLockHeld \<and> (mem_lease_view w' = mem_lease_view w \<or>
      mem_lease_view w' = (mem_lease_view w)((ns, n) \<mapsto> rec))"
    if "LeaseUpdate mem_lease_client ns n v rec w = (Err e, w')"
    using that by (auto simp: mem_lease_client_def split: option.splits if_splits
        elim!: lease_request_cases dest!: mem_lease_view_cong)
  show "mem_lease_view w' = (mem_lease_view w)((ns, n) := None)"
    if "LeaseDelete mem_lease_client ns n w = (Ok u, w')"
    using that by (auto simp: mem_lease_client_def mem_lease_view_def map_of_filter_key fun_eq_iff
        split: option.splits elim!: lease_request_cases)
next
  fix w w' :: mem_leases and ns n p v d and rec :: LeaderElectionRecord
  show "fst (LeaseGet mem_lease_client ns n w) \<noteq> Panic p"
    "fst (LeaseCreate mem_lease_client ns n rec w) \<noteq> Panic p"
    "fst (LeaseUpdate mem_lease_client ns n v rec w) \<noteq> Panic p"
    "fst (LeaseDelete mem_lease_client ns n w) \<noteq> Panic p"
    unfolding mem_lease_client_def
    by (simp_all, (rule lease_request_no_panic; simp add: case_prod_beta split: option.split)+)
  show "Clock mem_env w \<le> Clock mem_env (snd (LeaseGet mem_lease_client ns n w))"
    "Clock mem_env w \<le> Clock mem_env (snd (LeaseCreate mem_lease_client ns n rec w))"
    "Clock mem_env w \<le> Clock mem_env (snd (LeaseUpdate mem_lease_client ns n v rec w))"
    unfolding mem_lease_client_def mem_env_def
    by (simp_all, (rule lease_request_time; simp add: case_prod_beta write_lease_def split: option.split)+)
  show "Clock mem_env w + d \<le> Clock mem_env w'" if "Wait mem_env d w = (False, w')"
    using that by (auto simp: mem_env_def)
qed

context lease_api
begin

lemma TryLock_returns:
  assumes "TryLock client env s key w = (out, w')"
  shows "case Returned out of
      Ok True \<Rightarrow> Refresher out = Some (cleanKey key leasePrefix) \<and>
        (\<exists>rec. view w' (StorageNs s, cleanKey key leasePrefix) = Some rec \<and>
           HolderIdentity rec = LeaseID s \<and> RenewTime rec = Clock env w)
    | Ok False \<Rightarrow> Refresher out = None
    | Err e \<Rightarrow> Refresher out = None \<and> \<not> errors_Is e ErrLockHeld
    | Panic p \<Rightarrow> False"
proof -
  let ?key = "cleanKey key leasePrefix"
  obtain r w1 where t: "tryAcquireOrRenew client env s ?key False w = (r, w1)" by (meson surj_pair)
  from t show ?thesis
  proof (cases rule: tryAcquireOrRenew_cases)
    case (acquired rec)
    with assms t may_write_mine [OF acquired(2)] show ?thesis by (auto simp: TryLock_def)
  qed (use assms t in \<open>auto simp: TryLock_def split: if_splits\<close>)
qed

end

section \<open>Properties of the locks\<close>

text \<open>
  C14. A lease that another instance holds and has renewed less than the lease duration ago is left
  alone: the attempt, for a lock or for a refresh, returns an error and no lease has changed.
\<close>

theorem held_lease_untouched:
  assumes "lease_api client view"
    and "view w (StorageNs s, key) = Some rec"
    and "HolderIdentity rec \<noteq> []" and "HolderIdentity rec \<noteq> LeaseID s"
    and "Clock env w < RenewTime rec + leaseDuration"
    and "tryAcquireOrRenew client env s key shouldExist w = (r, w')"
  shows "(\<exists>e. r = Err e) \<and> view w' = view w"
proof -
  have "held_by_other (LeaseID s) (Clock env w) rec"
    using assms(3-5) by (simp add: held_by_other_def)
  from lease_api.held_blocks [OF assms(1,6,2) this] show ?thesis .
qed

definition sample_leases :: "LeaderElectionRecord \<Rightarrow> mem_leases" where
  "sample_leases rec =
     \<lparr>Leases = [((''caddy-system'', ''caddy-lock-a''), rec, 0)], NextVersion = 1, Time = 1000000, Faults = []\<rparr>"

theorem held_lease_untouched_witness:
  "let w = sample_leases (new_record ''other'' 0);
       (r, w') = tryAcquireOrRenew mem_lease_client mem_env sample_storage ''caddy-lock-a'' False w
   in (\<exists>e. r = Err e) \<and> mem_lease_view w' = mem_lease_view w"
proof -
  let ?w = "sample_leases (new_record ''other'' 0)"
  obtain r w' where run: "tryAcquireOrRenew mem_lease_client mem_env sample_storage ''caddy-lock-a'' False ?w = (r, w')"
    by (meson surj_pair)
  have "(\<exists>e. r = Err e) \<and> mem_lease_view w' = mem_lease_view ?w"
    by (rule held_lease_untouched [OF mem_lease.lease_api_axioms _ _ _ _ run, of "new_record ''other'' 0"])
      (simp_all add: sample_leases_def sample_storage_def mem_lease_view_def new_record_def mem_env_def leaseDuration_def)
  with run show ?thesis by (simp add: Let_def)
qed

text \<open>
  C19. An attempt that succeeds leaves the lease in the caller's name, renewed at the time the
  attempt started, and changes no other lease. It takes a lease only if there was none (never for
  a refresh), its holder was empty or the caller itself, or it had not been renewed for the lease
  duration. A renewal keeps the acquire time and the count of transitions; a takeover counts one.
\<close>

theorem acquired_lease:
  assumes "lease_api client view"
    and "tryAcquireOrRenew client env s key shouldExist w = (Ok False, w')"
  shows "\<exists>rec. view w' = (view w)((StorageNs s, key) \<mapsto> rec) \<and>
     HolderIdentity rec = LeaseID s \<and> RenewTime rec = Clock env w \<and>
     (case view w (StorageNs s, key) of
        None \<Rightarrow> \<not> shouldExist \<and> AcquireTime rec = Clock env w \<and> LeaderTransitions rec = 0
      | Some old \<Rightarrow>
          if HolderIdentity old = LeaseID s
          then AcquireTime rec = AcquireTime old \<and> LeaderTransitions rec = LeaderTransitions old
          else (HolderIdentity old = [] \<or> RenewTime old + leaseDuration \<le> Clock env w) \<and>
               AcquireTime rec = Clock env w \<and> LeaderTransitions rec = LeaderTransitions old + 1)"
proof -
  from lease_api.acquired_mine [OF assms] obtain rec where
    rec: "lease_api.may_write view s key shouldExist (Clock env w) w rec"
    and view: "view w' = (view w)((StorageNs s, key) \<mapsto> rec)" by blast
  from rec show ?thesis
    unfolding lease_api.may_write_def [OF assms(1)] using view
    by (auto simp: held_by_other_def renewed_record_def new_record_def Let_def split: option.splits if_splits)
qed

theorem acquired_lease_witness:
  "\<exists>rec w'. tryAcquireOrRenew mem_lease_client mem_env sample_storage ''caddy-lock-a'' False
       (sample_leases (new_record ''other'' (- 9000000))) = (Ok False, w') \<and>
     mem_lease_view w' (''caddy-system'', ''caddy-lock-a'') = Some rec \<and>
     HolderIdentity rec = ''test-instance'' \<and> LeaderTransitions rec = 1"
proof -
  let ?w = "sample_leases (new_record ''other'' (- 9000000))"
  obtain w' where run: "tryAcquireOrRenew mem_lease_client mem_env sample_storage ''caddy-lock-a'' False ?w = (Ok False, w')"
    by (simp add: tryAcquireOrRenew_def mem_lease_client_def lease_request_def sample_leases_def sample_storage_def
        held_by_other_def new_record_def mem_env_def leaseDuration_def Let_def)
  have "mem_lease_view ?w (''caddy-system'', ''caddy-lock-a'') = Some (new_record ''other'' (- 9000000))"
    and "StorageNs sample_storage = ''caddy-system''" and "LeaseID sample_storage = ''test-instance''"
    by (simp_all add: mem_lease_view_def sample_leases_def sample_storage_def)
  with acquired_lease [OF mem_lease.lease_api_axioms run] run show ?thesis
    by (auto simp: new_record_def)
qed

text \<open>
  C20. \<open>Lock\<close> always returns: time passes at every wait, so the loop ends by the acquire timeout
  even if the lock stays contended and every request fails. It returns without an error only with
  the lease in the caller's name and a refresher started for it, and no refresher runs otherwise.
\<close>

theorem Lock_always_returns:
  assumes "lock_clock client view env"
  shows "\<exists>out w'. Lock client env s key w = Some (out, w') \<and>
     ((\<exists>rec. Returned out = Ok () \<and> Refresher out = Some (cleanKey key leasePrefix) \<and>
         view w' (StorageNs s, cleanKey key leasePrefix) = Some rec \<and> HolderIdentity rec = LeaseID s) \<or>
      (\<exists>e. Returned out = Err e \<and> Refresher out = None))"
  unfolding Lock_def by (rule lock_clock.Lock_loop_returns [OF assms])

theorem Lock_always_returns_witness:
  "\<exists>out w'. Lock mem_lease_client mem_env sample_storage ''a'' (sample_leases (new_record ''other'' 0)) = Some (out, w') \<and>
     (Returned out = Ok () \<or> Refresher out = None)"
  using Lock_always_returns [OF mem_lease.lock_clock_axioms,
      of sample_storage "''a''" "sample_leases (new_record ''other'' 0)"] by blast

text \<open>
  C29. The goroutine that refreshes a lock goes on through every failed request. It stops only when
  its context is done, when the lease is gone, or when the lease is in another instance's name.
\<close>

theorem refresher_stops_only_when_over:
  assumes "lock_clock client view env"
    and "keepLockUpdated_step client env s key w = (turn, w')"
  shows "case turn of
      StopContextDone \<Rightarrow> fst (Wait env leaseRenewInterval w) \<or> ContextErr env w'
    | StopReleased \<Rightarrow> view w' (StorageNs s, key) = None
    | StopLost \<Rightarrow> (\<exists>rec. view w' (StorageNs s, key) = Some rec \<and> HolderIdentity rec \<noteq> LeaseID s)
    | StopPanic p \<Rightarrow> False
    | Continue \<Rightarrow> \<not> fst (Wait env leaseRenewInterval w)"
  by (rule lock_clock.keepLockUpdated_stops [OF assms])

theorem refresher_stops_only_when_over_witness:
  "\<exists>turn w'. keepLockUpdated_step mem_lease_client mem_env sample_storage ''caddy-lock-a''
      (sample_leases (new_record ''test-instance'' 0)\<lparr>Faults := [True]\<rparr>) = (turn, w') \<and>
      turn = Continue \<and> \<not> fst (Wait mem_env leaseRenewInterval (sample_leases (new_record ''test-instance'' 0)\<lparr>Faults := [True]\<rparr>))"
proof -
  let ?w = "sample_leases (new_record ''test-instance'' 0)\<lparr>Faults := [True]\<rparr>"
  obtain w' where run: "keepLockUpdated_step mem_lease_client mem_env sample_storage ''caddy-lock-a'' ?w = (Continue, w')"
    by (simp add: keepLockUpdated_step_def tryAcquireOrRenew_def mem_lease_client_def lease_request_def
        sample_leases_def mem_env_def Let_def)
  from refresher_stops_only_when_over [OF mem_lease.lock_clock_axioms run] run show ?thesis by simp
qed

text \<open>
  \<open>TryLock\<close> reports a lock held by another as busy, not as an error, unless the lease cannot be
  read; it reports an acquired lock exactly when the lease is in the caller's name at the end and a
  refresher has been started.
\<close>

lemma TryLock_result:
  assumes "lease_api client view"
    and "TryLock client env s key w = (out, w')"
  shows "case Returned out of
      Ok True \<Rightarrow> Refresher out = Some (cleanKey key leasePrefix) \<and>
        (\<exists>rec. view w' (StorageNs s, cleanKey key leasePrefix) = Some rec \<and>
           HolderIdentity rec = LeaseID s \<and> RenewTime rec = Clock env w)
    | Ok False \<Rightarrow> Refresher out = None
    | Err e \<Rightarrow> Refresher out = None \<and> \<not> errors_Is e ErrLockHeld
    | Panic p \<Rightarrow> False"
  by (rule lease_api.TryLock_returns [OF assms])

end
