(* ===== verification/Lock_System.thy ===== *)
theory Lock_System
  imports Lease_Lock
begin

text \<open>
  Several instances of the program contending for leases. The threads of the system run the code's own
  \<open>tryAcquireOrRenew\<close> and \<open>Unlock\<close>: a call is replayed on the answers it has got so far (\<open>replay_call\<close>), which
  gives the request it makes next or its result. Each request is one step of the API server, and other threads
  and time may step in between. \<open>Lock\<close>, \<open>TryLock\<close> and \<open>keepLockUpdated\<close> make no other requests than those of
  \<open>tryAcquireOrRenew\<close>. A thread belongs to an instance, named by its \<open>LeaseID\<close>; the threads of one instance
  share the identity and do not exclude each other. A thread may die at any point.

  The API server is a parameter: \<open>perform\<close> relates a request and a state to an answer and a new state, and the
  locale \<open>lease_server\<close> has what Kubernetes documents, optimistic concurrency above all. A request may fail, and a
  failed write may still have been carried out. Nothing but these requests changes the leases. Every machine has a clock of its own: the time a call reads
  differs from the real time by at most \<open>skew\<close>, another parameter.

  \<open>Valid\<close> is a ghost: per lease and instance, the time until which the last lease the instance has written protects
  it, by the clock it was written with. An instance is \<open>protected\<close> while the real time is more than the skew
  before that time.
\<close>

section \<open>Requests and their replay\<close>

datatype lease_request =
    GetLease string string
  | CreateLease string string LeaderElectionRecord
  | UpdateLease string string nat LeaderElectionRecord
  | DeleteLease string string

datatype lease_answer = Found "(LeaderElectionRecord \<times> nat) result" | Written "unit result"

fun found_result :: "lease_answer \<Rightarrow> (LeaderElectionRecord \<times> nat) result" where
  "found_result (Found r) = r"
| "found_result (Written r) = Err (ErrorString ''unexpected answer'')"

fun written_result :: "lease_answer \<Rightarrow> unit result" where
  "written_result (Written r) = r"
| "written_result (Found r) = Err (ErrorString ''unexpected answer'')"

text \<open>
  The client of a replay gives out the answers in order; the first request without an answer is noted, and nothing
  after it counts.
\<close>

record replay =
  Answers :: "lease_answer list"
  Asked :: "lease_request option"
  ReplayNow :: int

definition ask :: "lease_request \<Rightarrow> (lease_answer \<Rightarrow> 'a result) \<Rightarrow> replay \<Rightarrow> 'a result \<times> replay" where
  "ask req read w =
     (case (Asked w, Answers w) of
        (None, a # as) \<Rightarrow> (read a, w\<lparr>Answers := as\<rparr>)
      | (None, []) \<Rightarrow> (Err ContextDone, w\<lparr>Asked := Some req\<rparr>)
      | (Some _, _) \<Rightarrow> (Err ContextDone, w))"

definition replay_client :: "replay LeaseClient" where
  "replay_client =
     \<lparr>LeaseGet = \<lambda>ns n. ask (GetLease ns n) found_result,
      LeaseCreate = \<lambda>ns n rec. ask (CreateLease ns n rec) written_result,
      LeaseUpdate = \<lambda>ns n v rec. ask (UpdateLease ns n v rec) written_result,
      LeaseDelete = \<lambda>ns n. ask (DeleteLease ns n) written_result\<rparr>"

definition replay_env :: "replay LockEnv" where
  "replay_env = \<lparr>Clock = ReplayNow, Wait = \<lambda>d w. (True, w), ContextErr = \<lambda>w. False\<rparr>"

datatype lock_call = TryCall string bool | UnlockCall string

fun call_on :: "SecretStorage \<Rightarrow> lock_call \<Rightarrow> replay \<Rightarrow> bool result \<times> replay" where
  "call_on s (TryCall leaseName shouldExist) w = tryAcquireOrRenew replay_client replay_env s leaseName shouldExist w"
| "call_on s (UnlockCall key) w = (case Unlock replay_client s key w of (r, w') \<Rightarrow> (bind_result r (\<lambda>u. Ok True), w'))"

definition replay_call :: "SecretStorage \<Rightarrow> lock_call \<Rightarrow> int \<Rightarrow> lease_answer list \<Rightarrow> bool result \<times> replay" where
  "replay_call s c now answers = call_on s c \<lparr>Answers = answers, Asked = None, ReplayNow = now\<rparr>"

definition next_request :: "SecretStorage \<Rightarrow> lock_call \<Rightarrow> int \<Rightarrow> lease_answer list \<Rightarrow> lease_request option" where
  "next_request s c now answers = Asked (snd (replay_call s c now answers))"

definition call_result :: "SecretStorage \<Rightarrow> lock_call \<Rightarrow> int \<Rightarrow> lease_answer list \<Rightarrow> bool result option" where
  "call_result s c now answers =
     (if next_request s c now answers = None then Some (fst (replay_call s c now answers)) else None)"

lemmas replay_defs = next_request_def call_result_def replay_call_def replay_client_def replay_env_def ask_def Let_def

text \<open>The requests of the two functions, computed from their code.\<close>

lemma Unlock_requests:
  "next_request s (UnlockCall key) now answers =
     (if answers = [] then Some (DeleteLease (StorageNs s) (cleanKey key leasePrefix)) else None)"
  by (simp add: replay_defs Unlock_def split: list.split)

lemma Unlock_result: "call_result s (UnlockCall key) now answers \<noteq> Some (Ok False)"
  by (auto simp: replay_defs Unlock_def bind_result_eq_Ok split: list.split)

lemma tryAcquireOrRenew_requests:
  "next_request s (TryCall n shouldExist) now [] = Some (GetLease (StorageNs s) n)"
  "next_request s (TryCall n shouldExist) now [a] =
     (case found_result a of
        Ok (rec, v) \<Rightarrow>
          if held_by_other (LeaseID s) now rec then None
          else Some (UpdateLease (StorageNs s) n v (renewed_record (LeaseID s) now rec))
      | Err e \<Rightarrow>
          if IsNotFound e \<and> \<not> shouldExist then Some (CreateLease (StorageNs s) n (new_record (LeaseID s) now)) else None
      | Panic p \<Rightarrow> None)"
  "next_request s (TryCall n shouldExist) now (a # b # answers) = None"
  by (auto simp: replay_defs tryAcquireOrRenew_def split: result.split prod.split)

lemma tryAcquireOrRenew_succeeds:
  assumes "call_result s (TryCall n shouldExist) now answers = Some (Ok False)"
  obtains a b rest where "answers = a # b # rest" and "written_result b = Ok ()"
  using assms
  by (cases answers; cases "tl answers")
    (auto simp: replay_defs tryAcquireOrRenew_def split: result.splits if_splits prod.splits)

lemma request_cases [consumes 1, case_names get create update delete]:
  assumes "next_request s c now answers = Some req"
  obtains n shouldExist where "c = TryCall n shouldExist" "answers = []" "req = GetLease (StorageNs s) n"
  | n shouldExist a e where "c = TryCall n shouldExist" "answers = [a]" "found_result a = Err e" "IsNotFound e"
      "req = CreateLease (StorageNs s) n (new_record (LeaseID s) now)"
  | n shouldExist rec v where "c = TryCall n shouldExist" "answers = [Found (Ok (rec, v))]"
      "\<not> held_by_other (LeaseID s) now rec" "req = UpdateLease (StorageNs s) n v (renewed_record (LeaseID s) now rec)"
  | key where "c = UnlockCall key" "answers = []" "req = DeleteLease (StorageNs s) (cleanKey key leasePrefix)"
proof (cases c)
  case (UnlockCall key)
  with assms that(4) show thesis by (auto simp: Unlock_requests split: if_splits)
next
  case (TryCall n shouldExist)
  consider "answers = []" | a where "answers = [a]" | a b rest where "answers = a # b # rest"
    by (metis neq_Nil_conv)
  then show thesis
  proof cases
    case (2 a)
    with assms TryCall that(2,3) show thesis
      by (cases a) (auto simp: tryAcquireOrRenew_requests split: result.splits if_splits)
  qed (use assms TryCall that(1) in \<open>auto simp: tryAcquireOrRenew_requests\<close>)
qed

section \<open>The API server\<close>

text \<open>
  \<open>lookup\<close> is the lease with its resource version; \<open>used\<close> are the resource versions given out so far. A write of a
  lease gives it a version that was not used before, a lease is created only if there is none, and an update
  must carry the version of the lease it replaces.
\<close>

locale lease_server =
  fixes perform :: "lease_request \<Rightarrow> 'v \<Rightarrow> lease_answer \<Rightarrow> 'v \<Rightarrow> bool"
    and lookup :: "'v \<Rightarrow> string \<times> string \<Rightarrow> (LeaderElectionRecord \<times> nat) option"
    and used :: "'v \<Rightarrow> nat set"
  assumes get_same: "perform (GetLease ns n) s a s' \<Longrightarrow> lookup s' = lookup s"
    and get_found: "perform (GetLease ns n) s (Found (Ok x)) s' \<Longrightarrow> lookup s (ns, n) = Some x"
    and create_does: "perform (CreateLease ns n rec) s a s' \<Longrightarrow>
      lookup s' = lookup s \<and> written_result a \<noteq> Ok () \<or>
      lookup s (ns, n) = None \<and> (\<exists>v. v \<notin> used s \<and> lookup s' = (lookup s)((ns, n) \<mapsto> (rec, v)))"
    and update_does: "perform (UpdateLease ns n v rec) s a s' \<Longrightarrow>
      lookup s' = lookup s \<and> written_result a \<noteq> Ok () \<or>
      (\<exists>cur v'. lookup s (ns, n) = Some (cur, v) \<and> v' \<notin> used s \<and> lookup s' = (lookup s)((ns, n) \<mapsto> (rec, v')))"
    and delete_does: "perform (DeleteLease ns n) s a s' \<Longrightarrow>
      lookup s' = lookup s \<and> written_result a \<noteq> Ok () \<or> lookup s' = (lookup s)((ns, n) := None)"
    and used_grows: "perform req s a s' \<Longrightarrow> used s \<subseteq> used s'"
    and used_lookup: "lookup s k = Some (rec, v) \<Longrightarrow> v \<in> used s"

text \<open>A server that also can answer: without a fault, every request is carried out.\<close>

locale responsive_server = lease_server perform lookup used
  for perform :: "lease_request \<Rightarrow> 'v \<Rightarrow> lease_answer \<Rightarrow> 'v \<Rightarrow> bool" and lookup used +
  assumes get_answered: "\<exists>s'. perform (GetLease ns n) s
      (Found (case lookup s (ns, n) of None \<Rightarrow> Err (APIStatus NotFound) | Some x \<Rightarrow> Ok x)) s'"
    and create_answered: "lookup s (ns, n) = None \<Longrightarrow> \<exists>s'. perform (CreateLease ns n rec) s (Written (Ok ())) s'"
    and update_answered: "lookup s (ns, n) = Some (cur, v) \<Longrightarrow> \<exists>s'. perform (UpdateLease ns n v rec) s (Written (Ok ())) s'"
    and delete_answered: "lookup s (ns, n) = Some x \<Longrightarrow> \<exists>s'. perform (DeleteLease ns n) s (Written (Ok ())) s'"

section \<open>The system\<close>

datatype lock_thread = Resting | Calling lock_call int "lease_answer list"

record 'v lock_system =
  RealTime :: int
  Server :: 'v
  Threads :: "nat \<Rightarrow> lock_thread"
  Valid :: "string \<times> string \<Rightarrow> string \<Rightarrow> int option"

definition protected :: "int \<Rightarrow> 'v lock_system \<Rightarrow> string \<times> string \<Rightarrow> string \<Rightarrow> bool" where
  "protected skew \<sigma> k me \<longleftrightarrow> (\<exists>u. Valid \<sigma> k me = Some u \<and> RealTime \<sigma> + skew < u)"

text \<open>A write protects its instance if it was carried out; a release ends the protection.\<close>

fun valid_after ::
  "string \<Rightarrow> lease_request \<Rightarrow> bool \<Rightarrow> (string \<times> string \<Rightarrow> string \<Rightarrow> int option) \<Rightarrow> string \<times> string \<Rightarrow> string \<Rightarrow> int option" where
  "valid_after me (GetLease ns n) changed valid = valid"
| "valid_after me (CreateLease ns n rec) changed valid =
     (if changed then valid((ns, n) := (valid (ns, n))(me \<mapsto> RenewTime rec + leaseDuration)) else valid)"
| "valid_after me (UpdateLease ns n v rec) changed valid =
     (if changed then valid((ns, n) := (valid (ns, n))(me \<mapsto> RenewTime rec + leaseDuration)) else valid)"
| "valid_after me (DeleteLease ns n) changed valid = valid((ns, n) := (valid (ns, n))(me := None))"

text \<open>Who steps: time, or a thread that begins a call, has a request served, ends the call, or dies.\<close>

datatype lock_label = Tick | Begin nat lock_call | Serve nat | End nat | Die nat

abbreviation set_thread :: "nat \<Rightarrow> lock_thread \<Rightarrow> 'v lock_system \<Rightarrow> 'v lock_system" where
  "set_thread i th \<sigma> \<equiv> \<sigma>\<lparr>Threads := (Threads \<sigma>)(i := th)\<rparr>"

text \<open>
  \<open>timely\<close> restricts the releases: a deletion takes effect only while its instance is protected. \<open>Unlock\<close> itself does
  not check this.
\<close>

definition released_in_time ::
  "('v \<Rightarrow> string \<times> string \<Rightarrow> (LeaderElectionRecord \<times> nat) option) \<Rightarrow> int \<Rightarrow> 'v lock_system \<Rightarrow> string \<Rightarrow> lease_request \<Rightarrow> 'v \<Rightarrow> bool" where
  "released_in_time lookup skew \<sigma> me req s' \<longleftrightarrow>
     (case req of DeleteLease ns n \<Rightarrow> lookup s' = lookup (Server \<sigma>) \<or> protected skew \<sigma> (ns, n) me | _ \<Rightarrow> True)"

inductive lock_step ::
  "(lease_request \<Rightarrow> 'v \<Rightarrow> lease_answer \<Rightarrow> 'v \<Rightarrow> bool) \<Rightarrow>
   ('v \<Rightarrow> string \<times> string \<Rightarrow> (LeaderElectionRecord \<times> nat) option) \<Rightarrow> int \<Rightarrow> bool \<Rightarrow> (nat \<Rightarrow> SecretStorage) \<Rightarrow>
     'v lock_system \<Rightarrow> lock_label \<Rightarrow> 'v lock_system \<Rightarrow> bool"
  for perform lookup skew timely stores
  where
    tick: "RealTime \<sigma> \<le> t \<Longrightarrow> lock_step perform lookup skew timely stores \<sigma> Tick (\<sigma>\<lparr>RealTime := t\<rparr>)"
  | begins: "Threads \<sigma> i = Resting \<Longrightarrow> \<bar>now - RealTime \<sigma>\<bar> \<le> skew \<Longrightarrow>
      lock_step perform lookup skew timely stores \<sigma> (Begin i c) (set_thread i (Calling c now []) \<sigma>)"
  | serve: "Threads \<sigma> i = Calling c now answers \<Longrightarrow> next_request (stores i) c now answers = Some req \<Longrightarrow>
      perform req (Server \<sigma>) a s' \<Longrightarrow> timely \<longrightarrow> released_in_time lookup skew \<sigma> (LeaseID (stores i)) req s' \<Longrightarrow>
      lock_step perform lookup skew timely stores \<sigma> (Serve i)
        (set_thread i (Calling c now (answers @ [a]))
          (\<sigma>\<lparr>Server := s',
             Valid := valid_after (LeaseID (stores i)) req (lookup s' \<noteq> lookup (Server \<sigma>)) (Valid \<sigma>)\<rparr>))"
  | ends: "Threads \<sigma> i = Calling c now answers \<Longrightarrow> next_request (stores i) c now answers = None \<Longrightarrow>
      lock_step perform lookup skew timely stores \<sigma> (End i) (set_thread i Resting \<sigma>)"
  | dies: "lock_step perform lookup skew timely stores \<sigma> (Die i) (set_thread i Resting \<sigma>)"

inductive_cases serveE: "lock_step perform lookup skew timely stores \<sigma> (Serve i) \<sigma>'"

inductive lock_run ::
  "(lease_request \<Rightarrow> 'v \<Rightarrow> lease_answer \<Rightarrow> 'v \<Rightarrow> bool) \<Rightarrow>
   ('v \<Rightarrow> string \<times> string \<Rightarrow> (LeaderElectionRecord \<times> nat) option) \<Rightarrow> int \<Rightarrow> bool \<Rightarrow> (nat \<Rightarrow> SecretStorage) \<Rightarrow>
     'v lock_system \<Rightarrow> lock_label list \<Rightarrow> 'v lock_system \<Rightarrow> bool"
  for perform lookup skew timely stores
  where
    stop: "lock_run perform lookup skew timely stores \<sigma> [] \<sigma>"
  | go: "lock_step perform lookup skew timely stores \<sigma> l \<sigma>' \<Longrightarrow> lock_run perform lookup skew timely stores \<sigma>' ls \<sigma>'' \<Longrightarrow>
      lock_run perform lookup skew timely stores \<sigma> (l # ls) \<sigma>''"

text \<open>The system starts with any leases, of instances that are no longer there.\<close>

definition initial_lock :: "'v \<Rightarrow> int \<Rightarrow> 'v lock_system" where
  "initial_lock s now = \<lparr>RealTime = now, Server = s, Threads = (\<lambda>i. Resting), Valid = (\<lambda>k me. None)\<rparr>"

inductive lock_reachable ::
  "(lease_request \<Rightarrow> 'v \<Rightarrow> lease_answer \<Rightarrow> 'v \<Rightarrow> bool) \<Rightarrow>
   ('v \<Rightarrow> string \<times> string \<Rightarrow> (LeaderElectionRecord \<times> nat) option) \<Rightarrow> int \<Rightarrow> bool \<Rightarrow> (nat \<Rightarrow> SecretStorage) \<Rightarrow>
     'v lock_system \<Rightarrow> bool"
  for perform lookup skew timely stores
  where
    init: "lock_reachable perform lookup skew timely stores (initial_lock s now)"
  | step: "lock_reachable perform lookup skew timely stores \<sigma> \<Longrightarrow> lock_step perform lookup skew timely stores \<sigma> l \<sigma>' \<Longrightarrow>
      lock_reachable perform lookup skew timely stores \<sigma>'"

lemma lock_run_reachable:
  "lock_run perform lookup skew timely stores \<sigma> ls \<sigma>' \<Longrightarrow> lock_reachable perform lookup skew timely stores \<sigma> \<Longrightarrow>
     lock_reachable perform lookup skew timely stores \<sigma>'"
  by (induction rule: lock_run.induct) (auto intro: lock_reachable.step)

lemma lock_run_append:
  "lock_run perform lookup skew timely stores \<sigma> ls \<sigma>' \<Longrightarrow> lock_run perform lookup skew timely stores \<sigma>' ls' \<sigma>'' \<Longrightarrow>
     lock_run perform lookup skew timely stores \<sigma> (ls @ ls') \<sigma>''"
  by (induction rule: lock_run.induct) (auto intro: lock_run.go)

section \<open>The invariants\<close>

lemma new_record_fields [simp]:
  "HolderIdentity (new_record me t) = me" "RenewTime (new_record me t) = t"
  "HolderIdentity (renewed_record me t rec) = me" "RenewTime (renewed_record me t rec) = t"
  by (simp_all add: new_record_def renewed_record_def Let_def)

text \<open>
  What holds of a thread in a call: its clock reading is not too far ahead, and a lease that still has the version
  it has read is the lease it has read.
\<close>

definition thread_ok ::
  "('v \<Rightarrow> string \<times> string \<Rightarrow> (LeaderElectionRecord \<times> nat) option) \<Rightarrow> ('v \<Rightarrow> nat set) \<Rightarrow> int \<Rightarrow> SecretStorage \<Rightarrow>
     int \<Rightarrow> 'v \<Rightarrow> lock_thread \<Rightarrow> bool" where
  "thread_ok lookup used skew s time server th \<longleftrightarrow>
     (\<forall>c now answers. th = Calling c now answers \<longrightarrow> now \<le> time + skew \<and>
        (\<forall>n ex rec v. c = TryCall n ex \<and> answers = [Found (Ok (rec, v))] \<longrightarrow> v \<in> used server \<and>
           (\<forall>cur. lookup server (StorageNs s, n) = Some (cur, v) \<longrightarrow> cur = rec)))"

definition threads_inv ::
  "('v \<Rightarrow> string \<times> string \<Rightarrow> (LeaderElectionRecord \<times> nat) option) \<Rightarrow> ('v \<Rightarrow> nat set) \<Rightarrow> int \<Rightarrow> (nat \<Rightarrow> SecretStorage) \<Rightarrow>
     'v lock_system \<Rightarrow> bool" where
  "threads_inv lookup used skew stores \<sigma> \<longleftrightarrow>
     (\<forall>i. thread_ok lookup used skew (stores i) (RealTime \<sigma>) (Server \<sigma>) (Threads \<sigma> i))"

text \<open>An instance that is protected holds the lease, renewed no earlier than its protection says.\<close>

definition valid_inv ::
  "('v \<Rightarrow> string \<times> string \<Rightarrow> (LeaderElectionRecord \<times> nat) option) \<Rightarrow> int \<Rightarrow> 'v lock_system \<Rightarrow> bool" where
  "valid_inv lookup skew \<sigma> \<longleftrightarrow>
     (\<forall>k me u. Valid \<sigma> k me = Some u \<and> RealTime \<sigma> + skew < u \<longrightarrow>
        me \<noteq> [] \<and> (\<exists>rec v. lookup (Server \<sigma>) k = Some (rec, v) \<and> HolderIdentity rec = me \<and> u \<le> RenewTime rec + leaseDuration))"

lemma valid_invD:
  assumes "valid_inv lookup skew \<sigma>" and "Valid \<sigma> k me = Some u" and "RealTime \<sigma> + skew < u"
  obtains rec v where "me \<noteq> []" "lookup (Server \<sigma>) k = Some (rec, v)" "HolderIdentity rec = me"
    "u \<le> RenewTime rec + leaseDuration"
  using assms unfolding valid_inv_def by blast

context lease_server
begin

text \<open>What a request can do to the leases.\<close>

lemma perform_lookup:
  assumes "perform req s a s'"
  obtains (same) "lookup s' = lookup s"
  | (put) k rec v where "v \<notin> used s" and "lookup s' = (lookup s)(k \<mapsto> (rec, v))"
  | (remove) k where "lookup s' = (lookup s)(k := None)"
  using assms that
  by (cases req) (metis get_same, metis create_does, metis update_does, metis delete_does)

lemma thread_ok_served:
  assumes "perform req s a s'" and "thread_ok lookup used skew st time s th"
  shows "thread_ok lookup used skew st time s' th"
  using assms(1)
proof (cases rule: perform_lookup)
  case (put k rec v)
  with assms(2) used_grows [OF assms(1)] show ?thesis by (auto simp: thread_ok_def split: if_splits)
qed (use assms(2) used_grows [OF assms(1)] in \<open>auto simp: thread_ok_def\<close>)

lemma own_thread_ok:
  assumes "next_request st c now answers = Some req" and "perform req s a s'"
    and "thread_ok lookup used skew st time s (Calling c now answers)"
  shows "thread_ok lookup used skew st time s' (Calling c now (answers @ [a]))"
  using assms(1)
proof (cases rule: request_cases)
  case (get n shouldExist)
  have "v \<in> used s' \<and> lookup s' (StorageNs st, n) = Some (rec, v)" if "a = Found (Ok (rec, v))" for rec v
    using get_same [of _ _ s a s'] get_found [of _ _ s "(rec, v)" s'] used_lookup [of s' "(StorageNs st, n)" rec v]
      assms(2) get(3) that by auto
  with assms(3) get show ?thesis by (auto simp: thread_ok_def)
qed (use assms(3) in \<open>auto simp: thread_ok_def\<close>)

lemma threads_inv_step:
  assumes "lock_step perform lookup skew timely stores \<sigma> l \<sigma>'" and "threads_inv lookup used skew stores \<sigma>"
  shows "threads_inv lookup used skew stores \<sigma>'"
  using assms(1)
proof cases
  case (tick t)
  with assms(2) show ?thesis by (fastforce simp: threads_inv_def thread_ok_def)
next
  case (begins i now c)
  with assms(2) show ?thesis by (auto simp: threads_inv_def thread_ok_def)
next
  case (serve i c now answers req a s')
  have "thread_ok lookup used skew (stores k) (RealTime \<sigma>) (Server \<sigma>) (Threads \<sigma> k)" for k
    using assms(2) by (simp add: threads_inv_def)
  from this thread_ok_served [OF serve(5) this] own_thread_ok [OF serve(4,5) this [of i, unfolded serve(3)]] show ?thesis
    by (simp add: threads_inv_def serve(2))
qed (use assms(2) in \<open>auto simp: threads_inv_def thread_ok_def\<close>)

lemma threads_inv_reachable:
  "lock_reachable perform lookup skew timely stores \<sigma> \<Longrightarrow> threads_inv lookup used skew stores \<sigma>"
  by (induction rule: lock_reachable.induct)
    (simp add: threads_inv_def thread_ok_def initial_lock_def, blast intro: threads_inv_step)

text \<open>A call that writes a lease has found that it may: it sees the lease that it replaces.\<close>

definition may_take :: "string \<Rightarrow> int \<Rightarrow> (LeaderElectionRecord \<times> nat) option \<Rightarrow> bool" where
  "may_take me now lease \<longleftrightarrow> (\<forall>rec v. lease = Some (rec, v) \<longrightarrow> \<not> held_by_other me now rec)"

text \<open>A request that fails without an effect does not make the call succeed.\<close>

definition takes :: "int \<Rightarrow> SecretStorage \<Rightarrow> lock_call \<Rightarrow> int \<Rightarrow> lease_request \<Rightarrow> 'v lock_system \<Rightarrow> 'v \<Rightarrow> bool" where
  "takes skew st c now req \<sigma> s' \<longleftrightarrow>
     (\<exists>n ex rec v. c = TryCall n ex \<and> HolderIdentity rec = LeaseID st \<and> RenewTime rec = now \<and> now \<le> RealTime \<sigma> + skew \<and>
        may_take (LeaseID st) now (lookup (Server \<sigma>) (StorageNs st, n)) \<and> v \<notin> used (Server \<sigma>) \<and>
        lookup s' = (lookup (Server \<sigma>))((StorageNs st, n) \<mapsto> (rec, v)) \<and>
        valid_after (LeaseID st) req True (Valid \<sigma>) =
          (Valid \<sigma>)((StorageNs st, n) := (Valid \<sigma> (StorageNs st, n))(LeaseID st \<mapsto> now + leaseDuration)))"

lemma takesI:
  assumes "c = TryCall n ex" and "HolderIdentity rec = LeaseID st" and "RenewTime rec = now" and "now \<le> RealTime \<sigma> + skew"
    and "may_take (LeaseID st) now (lookup (Server \<sigma>) (StorageNs st, n))" and "v \<notin> used (Server \<sigma>)"
    and "lookup s' = (lookup (Server \<sigma>))((StorageNs st, n) \<mapsto> (rec, v))"
    and "req = CreateLease (StorageNs st) n rec \<or> req = UpdateLease (StorageNs st) n v0 rec"
  shows "takes skew st c now req \<sigma> s'"
  unfolding takes_def using assms by (intro exI conjI) auto

definition fails :: "SecretStorage \<Rightarrow> lock_call \<Rightarrow> int \<Rightarrow> lease_answer list \<Rightarrow> 'v \<Rightarrow> 'v \<Rightarrow> bool" where
  "fails st c now answers s s' \<longleftrightarrow> lookup s' = lookup s \<and> call_result st c now answers \<noteq> Some (Ok False)"

lemma create_served:
  assumes "perform (CreateLease (StorageNs st) n (new_record (LeaseID st) now)) (Server \<sigma>) a s'" and "now \<le> RealTime \<sigma> + skew"
  shows "fails st (TryCall n ex) now [a0, a] (Server \<sigma>) s' \<or>
    takes skew st (TryCall n ex) now (CreateLease (StorageNs st) n (new_record (LeaseID st) now)) \<sigma> s'"
proof (cases "lookup s' = lookup (Server \<sigma>) \<and> written_result a \<noteq> Ok ()")
  case True
  then show ?thesis by (auto simp: fails_def elim: tryAcquireOrRenew_succeeds)
next
  case False
  with create_does [OF assms(1)] obtain v where "lookup (Server \<sigma>) (StorageNs st, n) = None" "v \<notin> used (Server \<sigma>)"
    "lookup s' = (lookup (Server \<sigma>))((StorageNs st, n) \<mapsto> (new_record (LeaseID st) now, v))" by blast
  with assms(2) show ?thesis by - (rule disjI2, rule takesI [of _ n ex], simp_all add: may_take_def)
qed

lemma update_served:
  assumes "perform (UpdateLease (StorageNs st) n v (renewed_record (LeaseID st) now rec)) (Server \<sigma>) a s'"
    and "thread_ok lookup used skew st (RealTime \<sigma>) (Server \<sigma>) (Calling (TryCall n ex) now [Found (Ok (rec, v))])"
    and "\<not> held_by_other (LeaseID st) now rec"
  shows "fails st (TryCall n ex) now [a0, a] (Server \<sigma>) s' \<or>
    takes skew st (TryCall n ex) now (UpdateLease (StorageNs st) n v (renewed_record (LeaseID st) now rec)) \<sigma> s'"
proof (cases "lookup s' = lookup (Server \<sigma>) \<and> written_result a \<noteq> Ok ()")
  case True
  then show ?thesis by (auto simp: fails_def elim: tryAcquireOrRenew_succeeds)
next
  case False
  with update_does [OF assms(1)] obtain cur v' where cur: "lookup (Server \<sigma>) (StorageNs st, n) = Some (cur, v)"
    and v': "v' \<notin> used (Server \<sigma>)"
      "lookup s' = (lookup (Server \<sigma>))((StorageNs st, n) \<mapsto> (renewed_record (LeaseID st) now rec, v'))" by blast
  have "cur = rec" and "now \<le> RealTime \<sigma> + skew" using assms(2) cur by (auto simp: thread_ok_def)
  with cur v' assms(3) show ?thesis by - (rule disjI2, rule takesI [of _ n ex], auto simp: may_take_def)
qed

lemma served_request:
  assumes "threads_inv lookup used skew stores \<sigma>" and "Threads \<sigma> i = Calling c now answers"
    and "next_request (stores i) c now answers = Some req" and "perform req (Server \<sigma>) a s'"
  shows "fails (stores i) c now (answers @ [a]) (Server \<sigma>) s' \<or> takes skew (stores i) c now req \<sigma> s' \<or>
    (\<exists>key. c = UnlockCall key \<and> req = DeleteLease (StorageNs (stores i)) (cleanKey key leasePrefix) \<and>
       lookup s' = (lookup (Server \<sigma>))((StorageNs (stores i), cleanKey key leasePrefix) := None))"
proof -
  have ok: "thread_ok lookup used skew (stores i) (RealTime \<sigma>) (Server \<sigma>) (Calling c now answers)"
    using assms(1,2) by (metis threads_inv_def)
  from assms(3) show ?thesis
  proof (cases rule: request_cases)
    case (get n ex)
    with assms(4) get_same show ?thesis by (auto simp: fails_def elim: tryAcquireOrRenew_succeeds)
  next
    case (create n ex a0 e)
    with create_served [of "stores i" n now \<sigma> a s' skew ex a0] assms(4) ok show ?thesis by (auto simp: thread_ok_def)
  next
    case (update n ex rec v)
    with update_served [of "stores i" n v now rec \<sigma> a s' skew ex] assms(4) ok show ?thesis by auto
  next
    case (delete key)
    with assms(4) delete_does [of "StorageNs (stores i)" "cleanKey key leasePrefix" "Server \<sigma>" a s'] show ?thesis
      by (auto simp: fails_def Unlock_result)
  qed
qed

text \<open>Who holds the lease after a request is the one protected, if anyone is.\<close>

lemma valid_inv_taken:
  assumes "valid_inv lookup skew \<sigma>" and "takes skew st c now req \<sigma> s'" and "LeaseID st \<noteq> []"
  shows "valid_inv lookup skew (set_thread i th (\<sigma>\<lparr>Server := s', Valid := valid_after (LeaseID st) req True (Valid \<sigma>)\<rparr>))"
proof -
  from assms(2) obtain n ex rec v where t: "HolderIdentity rec = LeaseID st" "RenewTime rec = now" "now \<le> RealTime \<sigma> + skew"
    "may_take (LeaseID st) now (lookup (Server \<sigma>) (StorageNs st, n))"
    "lookup s' = (lookup (Server \<sigma>))((StorageNs st, n) \<mapsto> (rec, v))"
    "valid_after (LeaseID st) req True (Valid \<sigma>) =
      (Valid \<sigma>)((StorageNs st, n) := (Valid \<sigma> (StorageNs st, n))(LeaseID st \<mapsto> now + leaseDuration))"
    by (auto simp: takes_def)
  have "u \<le> RealTime \<sigma> + skew" if other: "me \<noteq> LeaseID st" and own: "Valid \<sigma> (StorageNs st, n) me = Some u" for me u
  proof (rule ccontr)
    assume "\<not> u \<le> RealTime \<sigma> + skew"
    then obtain old v' where "me \<noteq> []" "lookup (Server \<sigma>) (StorageNs st, n) = Some (old, v')"
      "HolderIdentity old = me" "u \<le> RenewTime old + leaseDuration" using valid_invD [OF assms(1) own] by auto
    with t(3,4) other \<open>\<not> u \<le> RealTime \<sigma> + skew\<close> show False by (auto simp: may_take_def held_by_other_def)
  qed
  with assms(1,3) t show ?thesis by (fastforce simp: valid_inv_def split: if_splits)
qed

lemma valid_inv_released:
  assumes "valid_inv lookup skew \<sigma>" and "lookup s' = (lookup (Server \<sigma>))((ns, n) := None)"
    and "released_in_time lookup skew \<sigma> me (DeleteLease ns n) s'"
  shows "valid_inv lookup skew (set_thread i th (\<sigma>\<lparr>Server := s', Valid := valid_after me (DeleteLease ns n) changed (Valid \<sigma>)\<rparr>))"
proof (cases "lookup s' = lookup (Server \<sigma>)")
  case True
  with assms(1) show ?thesis by (auto simp: valid_inv_def)
next
  case False
  with assms(3) obtain u where "Valid \<sigma> (ns, n) me = Some u" "RealTime \<sigma> + skew < u"
    by (auto simp: released_in_time_def protected_def)
  from valid_invD [OF assms(1) this] obtain rec v where "lookup (Server \<sigma>) (ns, n) = Some (rec, v)" "HolderIdentity rec = me"
    by blast
  with assms(1,2) show ?thesis by (fastforce simp: valid_inv_def)
qed

lemma valid_inv_kept:
  assumes "valid_inv lookup skew \<sigma>" and "lookup s' = lookup (Server \<sigma>)"
  shows "valid_inv lookup skew (set_thread i th (\<sigma>\<lparr>Server := s', Valid := valid_after me req False (Valid \<sigma>)\<rparr>))"
  using assms by (cases req) (auto simp: valid_inv_def)

lemma valid_inv_step:
  assumes "lock_step perform lookup skew True stores \<sigma> l \<sigma>'" and "threads_inv lookup used skew stores \<sigma>"
    and "valid_inv lookup skew \<sigma>" and "\<And>i. LeaseID (stores i) \<noteq> []"
  shows "valid_inv lookup skew \<sigma>'"
  using assms(1)
proof cases
  case (tick t)
  show ?thesis unfolding valid_inv_def
  proof (intro allI impI)
    fix k me u
    assume "Valid \<sigma>' k me = Some u \<and> RealTime \<sigma>' + skew < u"
    with tick have "Valid \<sigma> k me = Some u" "RealTime \<sigma> + skew < u" by simp_all
    with assms(3) [unfolded valid_inv_def] tick show "me \<noteq> [] \<and> (\<exists>rec v. lookup (Server \<sigma>') k = Some (rec, v) \<and> HolderIdentity rec = me \<and>
        u \<le> RenewTime rec + leaseDuration)" by (simp del: split_paired_All)
  qed
next
  case (serve i c now answers req a s')
  from served_request [OF assms(2) serve(3-5)] show ?thesis
  proof (elim disjE exE conjE)
    assume "fails (stores i) c now (answers @ [a]) (Server \<sigma>) s'"
    with valid_inv_kept [OF assms(3)] show ?thesis by (simp add: serve(2) fails_def)
  next
    assume takes: "takes skew (stores i) c now req \<sigma> s'"
    then have "lookup s' \<noteq> lookup (Server \<sigma>)"
      unfolding takes_def using used_lookup by (metis fun_upd_same)
    with valid_inv_taken [OF assms(3) takes assms(4)] show ?thesis by (simp add: serve(2))
  next
    fix key
    assume "req = DeleteLease (StorageNs (stores i)) (cleanKey key leasePrefix)"
      "lookup s' = (lookup (Server \<sigma>))((StorageNs (stores i), cleanKey key leasePrefix) := None)"
    with valid_inv_released [OF assms(3)] serve(6) show ?thesis by (simp add: serve(2))
  qed
qed (use assms(3) in \<open>auto simp: valid_inv_def\<close>)

lemma valid_inv_reachable:
  assumes "lock_reachable perform lookup skew True stores \<sigma>" and "\<And>i. LeaseID (stores i) \<noteq> []"
  shows "valid_inv lookup skew \<sigma>"
  using assms(1)
proof (induction rule: lock_reachable.induct)
  case (init s now)
  then show ?case by (simp add: valid_inv_def initial_lock_def)
next
  case (step \<sigma> l \<sigma>')
  from valid_inv_step [OF step(2) threads_inv_reachable [OF step(1)] step(3) assms(2)] show ?case .
qed

end

section \<open>Mutual exclusion\<close>

text \<open>
  C3. Mutual exclusion between instances: with clocks that differ from the real time by at most \<open>skew\<close>, and as long
  as a deletion of a lease takes effect only while its instance is protected, at no time are two different instances
  protected by one lease, however the requests of \<open>tryAcquireOrRenew\<close> and \<open>Unlock\<close> interleave, fail, or lose their
  answers, and whichever threads die. An instance is protected until the skew before the end of the lease it has
  written last.
\<close>

theorem lock_mutual_exclusion:
  assumes "lease_server perform lookup used" and "lock_reachable perform lookup skew True stores \<sigma>"
    and "\<forall>i. LeaseID (stores i) \<noteq> []" and "protected skew \<sigma> k a" and "protected skew \<sigma> k b"
  shows "a = b"
proof -
  have inv: "valid_inv lookup skew \<sigma>" using lease_server.valid_inv_reachable [OF assms(1,2)] assms(3) by blast
  from assms(4,5) obtain u v where "Valid \<sigma> k a = Some u" "RealTime \<sigma> + skew < u" "Valid \<sigma> k b = Some v" "RealTime \<sigma> + skew < v"
    by (auto simp: protected_def)
  from valid_invD [OF inv this(1,2)] valid_invD [OF inv this(3,4)] show ?thesis by (metis option.inject prod.inject)
qed


section \<open>The calls refine an atomic table\<close>

text \<open>
  The abstract specification: a table that gives a lease to one instance at a time. A grant needs a free lease, or
  one whose holder is the instance itself or nobody, or one that was not renewed for the lease duration, by the
  clock of the grant; and this clock is not too far ahead.
\<close>

record lock_table =
  TableNow :: int
  Granted :: "string \<times> string \<Rightarrow> (string \<times> int) option"

datatype lock_move = Pass | Grant "string \<times> string" string int | Clear "string \<times> string"

inductive table_step :: "int \<Rightarrow> lock_move \<Rightarrow> lock_table \<Rightarrow> lock_table \<Rightarrow> bool" for skew where
  pass: "TableNow \<tau> \<le> t \<Longrightarrow> table_step skew Pass \<tau> (\<tau>\<lparr>TableNow := t\<rparr>)"
| grant: "now \<le> TableNow \<tau> + skew \<Longrightarrow>
    (\<forall>holder renewed. Granted \<tau> k = Some (holder, renewed) \<longrightarrow> holder \<in> {[], me} \<or> renewed + leaseDuration \<le> now) \<Longrightarrow>
    table_step skew (Grant k me now) \<tau> (\<tau>\<lparr>Granted := (Granted \<tau>)(k \<mapsto> (me, now))\<rparr>)"
| clear: "table_step skew (Clear k) \<tau> (\<tau>\<lparr>Granted := (Granted \<tau>)(k := None)\<rparr>)"

definition table_of ::
  "('v \<Rightarrow> string \<times> string \<Rightarrow> (LeaderElectionRecord \<times> nat) option) \<Rightarrow> 'v lock_system \<Rightarrow> lock_table" where
  "table_of lookup \<sigma> =
     \<lparr>TableNow = RealTime \<sigma>,
      Granted = (\<lambda>k. map_option (\<lambda>(rec, v). (HolderIdentity rec, RenewTime rec)) (lookup (Server \<sigma>) k))\<rparr>"

text \<open>The move a step stands for, and the steps with which a call of \<open>tryAcquireOrRenew\<close> comes to return success.\<close>

fun move_of :: "(nat \<Rightarrow> SecretStorage) \<Rightarrow> 'v lock_system \<Rightarrow> lock_label \<Rightarrow> lock_move option" where
  "move_of stores \<sigma> Tick = Some Pass"
| "move_of stores \<sigma> (Serve i) =
     (case Threads \<sigma> i of
        Calling (TryCall n shouldExist) now answers \<Rightarrow> Some (Grant (StorageNs (stores i), n) (LeaseID (stores i)) now)
      | Calling (UnlockCall key) now answers \<Rightarrow> Some (Clear (StorageNs (stores i), cleanKey key leasePrefix))
      | Resting \<Rightarrow> None)"
| "move_of stores \<sigma> _ = None"

definition succeeds :: "(nat \<Rightarrow> SecretStorage) \<Rightarrow> lock_label \<Rightarrow> 'v lock_system \<Rightarrow> bool" where
  "succeeds stores l \<sigma>' \<longleftrightarrow>
     (\<exists>i n shouldExist now answers. l = Serve i \<and> Threads \<sigma>' i = Calling (TryCall n shouldExist) now answers \<and>
        call_result (stores i) (TryCall n shouldExist) now answers = Some (Ok False))"

lemma table_of_thread [simp]: "table_of lookup (\<sigma>\<lparr>Threads := ths\<rparr>) = table_of lookup \<sigma>"
  and table_of_tick: "table_of lookup (\<sigma>\<lparr>RealTime := t\<rparr>) = (table_of lookup \<sigma>)\<lparr>TableNow := t\<rparr>"
  by (simp_all add: table_of_def)

lemma table_of_server:
  assumes "lookup s' = (lookup (Server \<sigma>))(k := lease)"
  shows "table_of lookup (\<sigma>\<lparr>Server := s', Valid := va\<rparr>) =
    (table_of lookup \<sigma>)\<lparr>Granted := (Granted (table_of lookup \<sigma>))
      (k := map_option (\<lambda>(rec, v). (HolderIdentity rec, RenewTime rec)) lease)\<rparr>"
  using assms by (auto simp: table_of_def fun_eq_iff)

context lease_server
begin

lemma taken_granted:
  assumes "takes skew st c now req \<sigma> s'"
  obtains n ex where "c = TryCall n ex"
    and "table_step skew (Grant (StorageNs st, n) (LeaseID st) now) (table_of lookup \<sigma>) (table_of lookup (\<sigma>\<lparr>Server := s', Valid := va\<rparr>))"
proof -
  from assms obtain n ex rec v where t: "c = TryCall n ex" "HolderIdentity rec = LeaseID st" "RenewTime rec = now"
    "now \<le> RealTime \<sigma> + skew" "may_take (LeaseID st) now (lookup (Server \<sigma>) (StorageNs st, n))"
    "lookup s' = (lookup (Server \<sigma>))((StorageNs st, n) \<mapsto> (rec, v))"
    by (auto simp: takes_def)
  have "table_of lookup (\<sigma>\<lparr>Server := s', Valid := va\<rparr>) = (table_of lookup \<sigma>)\<lparr>Granted :=
      (Granted (table_of lookup \<sigma>))((StorageNs st, n) \<mapsto> (LeaseID st, now))\<rparr>"
    using table_of_server [OF t(6)] t(2,3) by simp
  moreover have "table_step skew (Grant (StorageNs st, n) (LeaseID st) now) (table_of lookup \<sigma>) \<dots>"
    using t(4,5) by (intro table_step.grant) (auto simp: table_of_def may_take_def held_by_other_def)
  ultimately show thesis using that t(1) by simp
qed

lemma step_refines_table:
  assumes "lock_step perform lookup skew timely stores \<sigma> l \<sigma>'" and "threads_inv lookup used skew stores \<sigma>"
  shows "table_of lookup \<sigma>' = table_of lookup \<sigma> \<and> \<not> succeeds stores l \<sigma>' \<or>
     (\<exists>mv. move_of stores \<sigma> l = Some mv \<and> table_step skew mv (table_of lookup \<sigma>) (table_of lookup \<sigma>'))"
  using assms(1)
proof cases
  case (tick t)
  then show ?thesis using table_step.pass [of "table_of lookup \<sigma>" t skew] by (auto simp: table_of_def)
next
  case (serve i c now answers req a s')
  let ?\<tau> = "\<sigma>\<lparr>Server := s', Valid := valid_after (LeaseID (stores i)) req (lookup s' \<noteq> lookup (Server \<sigma>)) (Valid \<sigma>)\<rparr>"
  have \<sigma>': "table_of lookup \<sigma>' = table_of lookup ?\<tau>" and th: "Threads \<sigma>' i = Calling c now (answers @ [a])"
    by (simp_all add: serve(2))
  from served_request [OF assms(2) serve(3-5)] show ?thesis
  proof (elim disjE exE conjE)
    assume "fails (stores i) c now (answers @ [a]) (Server \<sigma>) s'"
    with th \<sigma>' serve(1) show ?thesis by (auto simp: fails_def succeeds_def table_of_def)
  next
    assume "takes skew (stores i) c now req \<sigma> s'"
    then show ?thesis by (rule taken_granted) (use serve(1,3) \<sigma>' in auto)
  next
    fix key
    assume "c = UnlockCall key" "lookup s' = (lookup (Server \<sigma>))((StorageNs (stores i), cleanKey key leasePrefix) := None)"
    with serve(1,3) \<sigma>' table_of_server [of lookup s' \<sigma> _ None]
      table_step.clear [of skew "(StorageNs (stores i), cleanKey key leasePrefix)" "table_of lookup \<sigma>"]
    show ?thesis by simp
  qed
qed (simp_all add: succeeds_def)

end

text \<open>
  C18. However the calls of many instances interleave, request by request and with any failures, each step of the
  system is a step of the atomic table or leaves the table as it is: a request of \<open>tryAcquireOrRenew\<close> can only grant
  the lease to its instance, and only when the table allows it at that moment; a request of \<open>Unlock\<close> can only clear
  the lease. And a call of \<open>tryAcquireOrRenew\<close> returns success only by a step that grants the lease.
\<close>

theorem lock_calls_refine_table:
  assumes "lease_server perform lookup used" and "lock_reachable perform lookup skew timely stores \<sigma>"
    and "lock_step perform lookup skew timely stores \<sigma> l \<sigma>'"
  shows "table_of lookup \<sigma>' = table_of lookup \<sigma> \<and> \<not> succeeds stores l \<sigma>' \<or>
     (\<exists>mv. move_of stores \<sigma> l = Some mv \<and> table_step skew mv (table_of lookup \<sigma>) (table_of lookup \<sigma>'))"
  by (rule lease_server.step_refines_table [OF assms(1,3) lease_server.threads_inv_reachable [OF assms(1,2)]])

section \<open>Calls without interruption\<close>

text \<open>One call by one thread, on a server that answers: a successful attempt, and a release.\<close>

lemma run_Cons: "lock_step perform lookup skew timely stores \<sigma> l \<sigma>1 \<Longrightarrow> lock_run perform lookup skew timely stores \<sigma>1 ls \<sigma>' \<Longrightarrow>
    lock_run perform lookup skew timely stores \<sigma> (l # ls) \<sigma>'"
  by (rule lock_run.go)

context responsive_server
begin

abbreviation attempt :: "nat \<Rightarrow> string \<Rightarrow> lock_label list" where
  "attempt i n \<equiv> [Begin i (TryCall n False), Serve i, Serve i, End i]"

text \<open>The answer to \<open>Get\<close>, and the write that follows it.\<close>

lemma write_answered:
  assumes "may_take (LeaseID st) now (lookup s (StorageNs st, n))" and "lookup s1 = lookup s"
    and "a = Found (case lookup s (StorageNs st, n) of None \<Rightarrow> Err (APIStatus NotFound) | Some x \<Rightarrow> Ok x)"
  obtains req s2 rec v where "next_request st (TryCall n False) now [a] = Some req" and "perform req s1 (Written (Ok ())) s2"
    and "lookup s2 = (lookup s)((StorageNs st, n) \<mapsto> (rec, v))" and "HolderIdentity rec = LeaseID st" and "RenewTime rec = now"
    and "\<And>valid. valid_after (LeaseID st) req True valid =
      valid((StorageNs st, n) := (valid (StorageNs st, n))(LeaseID st \<mapsto> now + leaseDuration))"
    and "lookup s2 \<noteq> lookup s1" and "released_in_time lookup skew \<sigma> me req s2"
proof (cases "lookup s (StorageNs st, n)")
  case None
  let ?req = "CreateLease (StorageNs st) n (new_record (LeaseID st) now)"
  have "next_request st (TryCall n False) now [a] = Some ?req"
    using assms(3) None by (simp add: tryAcquireOrRenew_requests)
  moreover obtain s2 where s2: "perform ?req s1 (Written (Ok ())) s2"
    using create_answered [of s1 "StorageNs st" n] assms(2) None by auto
  moreover obtain v where "lookup s2 = (lookup s)((StorageNs st, n) \<mapsto> (new_record (LeaseID st) now, v))" "v \<notin> used s1"
    using create_does [OF s2] assms(2) by auto
  ultimately show thesis
    using that [of ?req s2 "new_record (LeaseID st) now" v] assms(2) None
    by (simp add: released_in_time_def) (metis fun_upd_same option.distinct(1))
next
  case (Some x)
  obtain rec0 v0 where x: "x = (rec0, v0)" by (meson surj_pair)
  let ?rec = "renewed_record (LeaseID st) now rec0"
  let ?req = "UpdateLease (StorageNs st) n v0 ?rec"
  have "next_request st (TryCall n False) now [a] = Some ?req"
    using assms(1,3) Some x by (simp add: tryAcquireOrRenew_requests may_take_def)
  moreover obtain s2 where s2: "perform ?req s1 (Written (Ok ())) s2"
    using update_answered [of s1 "StorageNs st" n rec0 v0] assms(2) Some x by auto
  moreover obtain v where v: "lookup s2 = (lookup s)((StorageNs st, n) \<mapsto> (?rec, v))" "v \<notin> used s1"
    using update_does [OF s2] assms(2) by auto
  moreover have "v \<noteq> v0" using v(2) used_lookup [of s1 "(StorageNs st, n)" rec0 v0] assms(2) Some x by auto
  then have "lookup s2 \<noteq> lookup s1" using v(1) assms(2) Some x by (metis fun_upd_same option.inject prod.inject)
  ultimately show thesis
    using that [of ?req s2 ?rec v] by (simp add: released_in_time_def)
qed

text \<open>The state after one uninterrupted attempt.\<close>

definition after_attempt :: "SecretStorage \<Rightarrow> string \<Rightarrow> int \<Rightarrow> 'v lock_system \<Rightarrow> 'v lock_system \<Rightarrow> bool" where
  "after_attempt st n now \<sigma> \<sigma>' \<longleftrightarrow>
     RealTime \<sigma>' = RealTime \<sigma> \<and> Threads \<sigma>' = Threads \<sigma> \<and>
     Valid \<sigma>' = (Valid \<sigma>)((StorageNs st, n) := (Valid \<sigma> (StorageNs st, n))(LeaseID st \<mapsto> now + leaseDuration)) \<and>
     (\<exists>rec v. lookup (Server \<sigma>') = (lookup (Server \<sigma>))((StorageNs st, n) \<mapsto> (rec, v)) \<and>
        HolderIdentity rec = LeaseID st \<and> RenewTime rec = now)"

lemma attempt_run:
  assumes "Threads \<sigma> i = Resting" and "\<bar>now - RealTime \<sigma>\<bar> \<le> skew"
    and "may_take (LeaseID (stores i)) now (lookup (Server \<sigma>) (StorageNs (stores i), n))"
  shows "\<exists>\<sigma>'. lock_run perform lookup skew timely stores \<sigma> (attempt i n) \<sigma>' \<and> after_attempt (stores i) n now \<sigma> \<sigma>'"
proof -
  let ?st = "stores i" and ?c = "TryCall n False" and ?step = "lock_step perform lookup skew timely stores"
  let ?a = "Found (case lookup (Server \<sigma>) (StorageNs ?st, n) of None \<Rightarrow> Err (APIStatus NotFound) | Some x \<Rightarrow> Ok x)"
  obtain s1 where s1: "perform (GetLease (StorageNs ?st) n) (Server \<sigma>) ?a s1" using get_answered by blast
  have same: "lookup s1 = lookup (Server \<sigma>)" by (rule get_same [OF s1])
  let ?\<sigma>1 = "set_thread i (Calling ?c now []) \<sigma>"
  let ?\<sigma>2 = "set_thread i (Calling ?c now [?a]) (?\<sigma>1\<lparr>Server := s1, Valid := Valid \<sigma>\<rparr>)"
  obtain req s2 rec v where w: "next_request ?st ?c now [?a] = Some req" "perform req s1 (Written (Ok ())) s2"
    "lookup s2 = (lookup (Server \<sigma>))((StorageNs ?st, n) \<mapsto> (rec, v))" "HolderIdentity rec = LeaseID ?st" "RenewTime rec = now"
    "\<And>valid. valid_after (LeaseID ?st) req True valid =
      valid((StorageNs ?st, n) := (valid (StorageNs ?st, n))(LeaseID ?st \<mapsto> now + leaseDuration))"
    "lookup s2 \<noteq> lookup s1" "released_in_time lookup skew ?\<sigma>2 (LeaseID ?st) req s2"
    using write_answered [OF assms(3) same refl, where \<sigma> = ?\<sigma>2 and me = "LeaseID ?st" and skew = skew] by metis
  let ?\<sigma>3 = "set_thread i (Calling ?c now ([?a] @ [Written (Ok ())])) (?\<sigma>2\<lparr>Server := s2,
      Valid := valid_after (LeaseID ?st) req (lookup s2 \<noteq> lookup (Server ?\<sigma>2)) (Valid ?\<sigma>2)\<rparr>)"
  let ?\<sigma>4 = "set_thread i Resting ?\<sigma>3"
  have "?step \<sigma> (Begin i ?c) ?\<sigma>1" by (rule lock_step.begins [OF assms(1,2)])
  moreover have "?step ?\<sigma>1 (Serve i) ?\<sigma>2"
    using lock_step.serve [of ?\<sigma>1 i ?c now "[]" stores _ perform ?a s1 timely lookup skew] s1
    by (simp add: tryAcquireOrRenew_requests released_in_time_def)
  moreover have "?step ?\<sigma>2 (Serve i) ?\<sigma>3" by (rule lock_step.serve) (use w in auto)
  moreover have "?step ?\<sigma>3 (End i) ?\<sigma>4"
    by (rule lock_step.ends [where c = ?c and now = now and answers = "[?a] @ [Written (Ok ())]"])
      (simp_all add: tryAcquireOrRenew_requests)
  ultimately have "lock_run perform lookup skew timely stores \<sigma> (attempt i n) ?\<sigma>4"
    by (intro run_Cons) (auto intro: lock_run.stop)
  moreover have "after_attempt ?st n now \<sigma> ?\<sigma>4"
    unfolding after_attempt_def using w(3-7) assms(1) by (auto simp: fun_upd_idem)
  ultimately show ?thesis by blast
qed

lemma unlock_run:
  assumes "Threads \<sigma> i = Resting" and "0 \<le> skew"
    and "lookup (Server \<sigma>) (StorageNs (stores i), cleanKey key leasePrefix) = Some x"
  shows "\<exists>\<sigma>'. lock_run perform lookup skew False stores \<sigma> [Begin i (UnlockCall key), Serve i, End i] \<sigma>' \<and>
    RealTime \<sigma>' = RealTime \<sigma> \<and> Threads \<sigma>' = Threads \<sigma> \<and>
    lookup (Server \<sigma>') = (lookup (Server \<sigma>))((StorageNs (stores i), cleanKey key leasePrefix) := None) \<and>
    (\<forall>k me. me \<noteq> LeaseID (stores i) \<longrightarrow> Valid \<sigma>' k me = Valid \<sigma> k me)"
proof -
  let ?k = "(StorageNs (stores i), cleanKey key leasePrefix)" and ?c = "UnlockCall key" and ?now = "RealTime \<sigma>"
  let ?step = "lock_step perform lookup skew False stores" and ?req = "DeleteLease (StorageNs (stores i)) (cleanKey key leasePrefix)"
  obtain s' where s': "perform ?req (Server \<sigma>) (Written (Ok ())) s'" using delete_answered [OF assms(3)] by blast
  have gone: "lookup s' = (lookup (Server \<sigma>))(?k := None)" using delete_does [OF s'] by simp
  let ?\<sigma>1 = "set_thread i (Calling ?c ?now []) \<sigma>"
  let ?\<sigma>2 = "set_thread i (Calling ?c ?now ([] @ [Written (Ok ())])) (?\<sigma>1\<lparr>Server := s',
      Valid := valid_after (LeaseID (stores i)) ?req (lookup s' \<noteq> lookup (Server ?\<sigma>1)) (Valid ?\<sigma>1)\<rparr>)"
  let ?\<sigma>3 = "set_thread i Resting ?\<sigma>2"
  have "?step \<sigma> (Begin i ?c) ?\<sigma>1" by (rule lock_step.begins) (use assms in simp_all)
  moreover have "?step ?\<sigma>1 (Serve i) ?\<sigma>2" by (rule lock_step.serve) (use s' in \<open>simp_all add: Unlock_requests\<close>)
  moreover have "?step ?\<sigma>2 (End i) ?\<sigma>3"
    by (rule lock_step.ends [where c = ?c and now = ?now and answers = "[] @ [Written (Ok ())]"]) (simp_all add: Unlock_requests)
  ultimately have "lock_run perform lookup skew False stores \<sigma> [Begin i ?c, Serve i, End i] ?\<sigma>3"
    by (intro run_Cons) (auto intro: lock_run.stop)
  with gone assms(1) show ?thesis by (intro exI [of _ ?\<sigma>3]) (auto simp: fun_upd_idem)
qed

lemma late_unlock:
  assumes "Threads \<sigma> i = Resting" and "Threads \<sigma> j = Resting" and "0 \<le> skew" and "skew < leaseDuration"
    and "StorageNs (stores j) = StorageNs (stores i)" and "n = cleanKey key leasePrefix"
    and "lookup (Server \<sigma>) (StorageNs (stores i), n) = Some x"
    and "protected skew \<sigma> (StorageNs (stores i), n) b" and "b \<noteq> LeaseID (stores i)" and "b \<noteq> LeaseID (stores j)"
  shows "\<exists>\<sigma>'. lock_run perform lookup skew False stores \<sigma>
      ([Begin i (UnlockCall key), Serve i, End i] @ attempt j n) \<sigma>' \<and>
    protected skew \<sigma>' (StorageNs (stores i), n) b \<and> protected skew \<sigma>' (StorageNs (stores i), n) (LeaseID (stores j))"
proof -
  from unlock_run [where skew = skew and stores = stores, OF assms(1,3) assms(7) [unfolded assms(6)]] obtain \<sigma>1 where
    u: "lock_run perform lookup skew False stores \<sigma> [Begin i (UnlockCall key), Serve i, End i] \<sigma>1"
    "RealTime \<sigma>1 = RealTime \<sigma>" "Threads \<sigma>1 = Threads \<sigma>"
    "lookup (Server \<sigma>1) = (lookup (Server \<sigma>))((StorageNs (stores i), cleanKey key leasePrefix) := None)"
    "\<forall>k me. me \<noteq> LeaseID (stores i) \<longrightarrow> Valid \<sigma>1 k me = Valid \<sigma> k me" by blast
  have "may_take (LeaseID (stores j)) (RealTime \<sigma>1) (lookup (Server \<sigma>1) (StorageNs (stores j), n))"
    using u(4) assms(5,6) by (simp add: may_take_def)
  from attempt_run [where skew = skew and timely = False and stores = stores, OF _ _ this] u(3) assms(2,3) obtain \<sigma>2 where
    run: "lock_run perform lookup skew False stores \<sigma>1 (attempt j n) \<sigma>2" and
    after: "after_attempt (stores j) n (RealTime \<sigma>1) \<sigma>1 \<sigma>2" by auto
  have "protected skew \<sigma>2 (StorageNs (stores i), n) b"
    using after u(2,5) assms(5,8-10) by (auto simp: after_attempt_def protected_def)
  moreover have "protected skew \<sigma>2 (StorageNs (stores i), n) (LeaseID (stores j))"
    using after assms(4,5) by (auto simp: after_attempt_def protected_def)
  ultimately show ?thesis using lock_run_append [OF u(1) run] by (intro exI [of _ \<sigma>2] conjI)
qed

end

section \<open>A server in memory\<close>

text \<open>
  Every request is carried out and answered, or fails with a timeout; a request that fails may have been carried out.
\<close>

record mem_server =
  MemHeld :: "((string \<times> string) \<times> LeaderElectionRecord \<times> nat) list"
  MemNext :: nat

definition mem_fresh :: "mem_server \<Rightarrow> nat" where
  "mem_fresh s = foldr max (map (\<lambda>(k, rec, v). Suc v) (MemHeld s)) (MemNext s)"

definition mem_put :: "string \<times> string \<Rightarrow> LeaderElectionRecord \<Rightarrow> mem_server \<Rightarrow> mem_server" where
  "mem_put k rec s = \<lparr>MemHeld = (k, rec, mem_fresh s) # MemHeld s, MemNext = Suc (mem_fresh s)\<rparr>"

fun mem_answer :: "lease_request \<Rightarrow> mem_server \<Rightarrow> lease_answer \<times> mem_server" where
  "mem_answer (GetLease ns n) s =
     (Found (case map_of (MemHeld s) (ns, n) of None \<Rightarrow> Err (APIStatus NotFound) | Some x \<Rightarrow> Ok x), s)"
| "mem_answer (CreateLease ns n rec) s =
     (case map_of (MemHeld s) (ns, n) of
        None \<Rightarrow> (Written (Ok ()), mem_put (ns, n) rec s)
      | Some x \<Rightarrow> (Written (Err (APIStatus AlreadyExists)), s))"
| "mem_answer (UpdateLease ns n v rec) s =
     (case map_of (MemHeld s) (ns, n) of
        None \<Rightarrow> (Written (Err (APIStatus NotFound)), s)
      | Some x \<Rightarrow>
          if snd x = v then (Written (Ok ()), mem_put (ns, n) rec s) else (Written (Err (APIStatus Conflict)), s))"
| "mem_answer (DeleteLease ns n) s =
     (case map_of (MemHeld s) (ns, n) of
        None \<Rightarrow> (Written (Err (APIStatus NotFound)), s)
      | Some x \<Rightarrow> (Written (Ok ()), \<lparr>MemHeld = filter (\<lambda>(k, x). k \<noteq> (ns, n)) (MemHeld s), MemNext = mem_fresh s\<rparr>))"

definition mem_perform :: "lease_request \<Rightarrow> mem_server \<Rightarrow> lease_answer \<Rightarrow> mem_server \<Rightarrow> bool" where
  "mem_perform req s a s' \<longleftrightarrow>
     (a, s') = mem_answer req s \<or>
     a \<in> {Found (Err (ErrorString ''timeout'')), Written (Err (ErrorString ''timeout''))} \<and> s' \<in> {s, snd (mem_answer req s)}"

definition mem_lookup :: "mem_server \<Rightarrow> string \<times> string \<Rightarrow> (LeaderElectionRecord \<times> nat) option" where
  "mem_lookup s = map_of (MemHeld s)"

definition mem_used :: "mem_server \<Rightarrow> nat set" where
  "mem_used s = {..< mem_fresh s}"

lemma mem_fresh_next: "MemNext s \<le> mem_fresh s"
proof -
  have "m \<le> foldr max (map f xs) m" for m :: nat and f :: "(string \<times> string) \<times> LeaderElectionRecord \<times> nat \<Rightarrow> nat" and xs
    by (induction xs) auto
  then show ?thesis by (simp add: mem_fresh_def)
qed

lemma mem_fresh_lookup: "mem_lookup s k = Some (rec, v) \<Longrightarrow> v < mem_fresh s"
proof -
  have "(k, rec, v) \<in> set xs \<Longrightarrow> v < foldr max (map (\<lambda>(k, rec, v). Suc v) xs) m" for m and xs :: "((string \<times> string) \<times> LeaderElectionRecord \<times> nat) list"
    by (induction xs) auto
  moreover assume "mem_lookup s k = Some (rec, v)"
  then have "(k, rec, v) \<in> set (MemHeld s)" by (auto simp: mem_lookup_def dest: map_of_SomeD)
  ultimately show ?thesis by (simp add: mem_fresh_def)
qed

lemma mem_lookup_put: "mem_lookup (mem_put k rec s) = (mem_lookup s)(k \<mapsto> (rec, mem_fresh s))"
  by (simp add: mem_lookup_def mem_put_def)

lemma mem_answer_used: "mem_fresh s \<le> mem_fresh (snd (mem_answer req s))"
proof -
  have "mem_fresh s \<le> mem_fresh (mem_put k rec s)" for k rec
    using mem_fresh_next [of "mem_put k rec s"] by (simp add: mem_put_def)
  moreover have "mem_fresh s \<le> mem_fresh \<lparr>MemHeld = xs, MemNext = mem_fresh s\<rparr>" for xs
    using mem_fresh_next [of "\<lparr>MemHeld = xs, MemNext = mem_fresh s\<rparr>"] by simp
  ultimately show ?thesis by (cases req) (auto split: option.split)
qed

interpretation mem_server: responsive_server mem_perform mem_lookup mem_used
proof
  fix s s' :: mem_server and a ns n x v rec cur req k
  show "mem_lookup s' = mem_lookup s" if "mem_perform (GetLease ns n) s a s'"
    using that by (auto simp: mem_perform_def)
  show "mem_lookup s (ns, n) = Some x" if "mem_perform (GetLease ns n) s (Found (Ok x)) s'"
    using that by (auto simp: mem_perform_def mem_lookup_def split: option.splits)
  show "mem_lookup s' = mem_lookup s \<and> written_result a \<noteq> Ok () \<or>
      mem_lookup s (ns, n) = None \<and> (\<exists>v. v \<notin> mem_used s \<and> mem_lookup s' = (mem_lookup s)((ns, n) \<mapsto> (rec, v)))"
    if "mem_perform (CreateLease ns n rec) s a s'"
    using that by (cases "map_of (MemHeld s) (ns, n)")
      (auto simp: mem_perform_def mem_lookup_put mem_used_def, auto simp: mem_lookup_def)
  show "mem_lookup s' = mem_lookup s \<and> written_result a \<noteq> Ok () \<or>
      (\<exists>cur v'. mem_lookup s (ns, n) = Some (cur, v) \<and> v' \<notin> mem_used s \<and> mem_lookup s' = (mem_lookup s)((ns, n) \<mapsto> (rec, v')))"
    if "mem_perform (UpdateLease ns n v rec) s a s'"
    using that by (cases "map_of (MemHeld s) (ns, n)")
      (auto simp: mem_perform_def mem_lookup_put mem_used_def split: if_splits, auto simp: mem_lookup_def)
  show "mem_lookup s' = mem_lookup s \<and> written_result a \<noteq> Ok () \<or> mem_lookup s' = (mem_lookup s)((ns, n) := None)"
    if "mem_perform (DeleteLease ns n) s a s'"
    using that by (cases "map_of (MemHeld s) (ns, n)")
      (auto simp: mem_perform_def mem_lookup_def map_of_filter_key fun_eq_iff)
  show "mem_used s \<subseteq> mem_used s'" if "mem_perform req s a s'"
    using that mem_answer_used [of s req] by (cases "mem_answer req s") (auto simp: mem_perform_def mem_used_def)
  show "v \<in> mem_used s" if "mem_lookup s k = Some (rec, v)"
    using mem_fresh_lookup [OF that] by (simp add: mem_used_def)
qed (auto simp: mem_perform_def mem_lookup_def split: option.split)

section \<open>Runs of three instances\<close>

definition three_stores :: "nat \<Rightarrow> SecretStorage" where
  "three_stores i = sample_storage\<lparr>LeaseID := if i = 0 then ''a'' else if i = 1 then ''b'' else ''c''\<rparr>"

abbreviation three_start :: "mem_server lock_system" where
  "three_start \<equiv> initial_lock \<lparr>MemHeld = [], MemNext = 0\<rparr> 0"

abbreviation three_key :: "string \<times> string" where
  "three_key \<equiv> (''caddy-system'', cleanKey ''cert'' leasePrefix)"

lemma three_stores_fields [simp]:
  "StorageNs (three_stores i) = ''caddy-system''"
  "LeaseID (three_stores i) = (if i = 0 then ''a'' else if i = 1 then ''b'' else ''c'')"
  by (simp_all add: three_stores_def sample_storage_def)

abbreviation three_reachable :: "bool \<Rightarrow> mem_server lock_system \<Rightarrow> bool" where
  "three_reachable timely \<equiv> lock_reachable mem_perform mem_lookup 1000000 timely three_stores"

text \<open>The first instance takes the lease.\<close>

lemma first_takes:
  obtains \<sigma> rec v where "three_reachable timely \<sigma>" "Threads \<sigma> = (\<lambda>i. Resting)" "RealTime \<sigma> = 0"
    "Valid \<sigma> = (\<lambda>k me. None)(three_key := [''a'' \<mapsto> leaseDuration])"
    "mem_lookup (Server \<sigma>) three_key = Some (rec, v)" "HolderIdentity rec = ''a''" "RenewTime rec = 0"
proof -
  let ?n = "cleanKey ''cert'' leasePrefix"
  have "mem_server.may_take (LeaseID (three_stores 0)) 0 (mem_lookup (Server three_start) (StorageNs (three_stores 0), ?n))"
    by (simp add: mem_server.may_take_def mem_lookup_def initial_lock_def)
  from mem_server.attempt_run [where skew = 1000000 and timely = timely and stores = three_stores, OF _ _ this]
  obtain \<sigma> where run: "lock_run mem_perform mem_lookup 1000000 timely three_stores three_start (mem_server.attempt 0 ?n) \<sigma>"
    and after: "mem_server.after_attempt (three_stores 0) ?n 0 three_start \<sigma>" by (auto simp: initial_lock_def)
  have "three_reachable timely \<sigma>" by (rule lock_run_reachable [OF run lock_reachable.init])
  with after that show thesis by (auto simp: mem_server.after_attempt_def initial_lock_def fun_upd_def)
qed

theorem lock_mutual_exclusion_witness:
  "\<exists>\<sigma>. three_reachable True \<sigma> \<and> protected 1000000 \<sigma> three_key ''a'' \<and> (\<forall>b. protected 1000000 \<sigma> three_key b \<longrightarrow> ''a'' = b)"
proof -
  obtain \<sigma> rec v where r: "three_reachable True \<sigma>" and "RealTime \<sigma> = 0"
    "Valid \<sigma> = (\<lambda>k me. None)(three_key := [''a'' \<mapsto> leaseDuration])" using first_takes [of True] by metis
  then have a: "protected 1000000 \<sigma> three_key ''a''" by (simp add: protected_def leaseDuration_def)
  have named: "\<forall>i. LeaseID (three_stores i) \<noteq> []" by simp
  from lock_mutual_exclusion [OF mem_server.lease_server_axioms r named a] r a show ?thesis by blast
qed

theorem lock_calls_refine_table_witness:
  "\<exists>\<sigma> \<sigma>'. three_reachable True \<sigma> \<and> lock_step mem_perform mem_lookup 1000000 True three_stores \<sigma> (Serve 0) \<sigma>' \<and>
     table_step 1000000 (Grant (''caddy-system'', ''l'') ''a'' 0) (table_of mem_lookup \<sigma>) (table_of mem_lookup \<sigma>')"
proof -
  let ?c = "TryCall ''l'' False" and ?absent = "Found (Err (APIStatus NotFound))" and ?rec = "new_record ''a'' 0"
  let ?step = "lock_step mem_perform mem_lookup 1000000 True three_stores"
  let ?\<sigma>1 = "set_thread 0 (Calling ?c 0 []) three_start" and ?\<sigma>2 = "set_thread 0 (Calling ?c 0 [?absent]) three_start"
  let ?req = "CreateLease ''caddy-system'' ''l'' ?rec" and ?s = "Server three_start"
  let ?s' = "mem_put (''caddy-system'', ''l'') ?rec ?s"
  let ?\<sigma>3 = "set_thread 0 (Calling ?c 0 ([?absent] @ [Written (Ok ())])) (?\<sigma>2\<lparr>Server := ?s',
      Valid := valid_after (LeaseID (three_stores 0)) ?req (mem_lookup ?s' \<noteq> mem_lookup (Server ?\<sigma>2)) (Valid ?\<sigma>2)\<rparr>)"
  have "?step three_start (Begin 0 ?c) ?\<sigma>1" by (rule lock_step.begins) (simp_all add: initial_lock_def)
  then have one: "three_reachable True ?\<sigma>1" by (rule lock_reachable.step [OF lock_reachable.init])
  have "?step ?\<sigma>1 (Serve 0) ?\<sigma>2"
    using lock_step.serve [of ?\<sigma>1 0 ?c 0 "[]" three_stores _ mem_perform ?absent ?s True mem_lookup 1000000]
    by (simp add: tryAcquireOrRenew_requests mem_perform_def released_in_time_def initial_lock_def)
  then have two: "three_reachable True ?\<sigma>2" by (rule lock_reachable.step [OF one])
  have step: "?step ?\<sigma>2 (Serve 0) ?\<sigma>3"
    by (rule lock_step.serve)
      (simp_all add: tryAcquireOrRenew_requests mem_perform_def released_in_time_def initial_lock_def)
  have "Granted (table_of mem_lookup ?\<sigma>3) (''caddy-system'', ''l'') \<noteq> Granted (table_of mem_lookup ?\<sigma>2) (''caddy-system'', ''l'')"
    by (simp add: table_of_def mem_lookup_put) (simp add: mem_lookup_def initial_lock_def)
  with lock_calls_refine_table [OF mem_server.lease_server_axioms two step]
  have "table_step 1000000 (Grant (''caddy-system'', ''l'') ''a'' 0) (table_of mem_lookup ?\<sigma>2) (table_of mem_lookup ?\<sigma>3)" by auto
  with two step show ?thesis by blast
qed

text \<open>
  C36. \<open>Unlock\<close> deletes the lease whoever holds it. In any state in which an instance is protected by its lease, a call
  of \<open>Unlock\<close> by another instance and then an attempt by a third one, each alone and without a failure, leave two
  different instances protected by the same lease.
\<close>

theorem late_unlock_breaks_exclusion:
  assumes "responsive_server perform lookup used" and "0 \<le> skew" and "skew < leaseDuration"
    and "Threads \<sigma> i = Resting" and "Threads \<sigma> j = Resting"
    and "k = (StorageNs (stores i), cleanKey key leasePrefix)" and "StorageNs (stores j) = StorageNs (stores i)"
    and "lookup (Server \<sigma>) k \<noteq> None" and "protected skew \<sigma> k b"
    and "b \<noteq> LeaseID (stores i)" and "b \<noteq> LeaseID (stores j)"
  shows "\<exists>\<sigma>'. lock_run perform lookup skew False stores \<sigma>
      [Begin i (UnlockCall key), Serve i, End i, Begin j (TryCall (snd k) False), Serve j, Serve j, End j] \<sigma>' \<and>
    protected skew \<sigma>' k b \<and> protected skew \<sigma>' k (LeaseID (stores j))"
proof -
  from assms(8) obtain x where "lookup (Server \<sigma>) (StorageNs (stores i), cleanKey key leasePrefix) = Some x"
    using assms(6) by blast
  from responsive_server.late_unlock [OF assms(1,4,5,2,3,7) refl this assms(9) [unfolded assms(6)] assms(10,11)]
  show ?thesis by (simp add: assms(6))
qed

text \<open>The first instance has lost its lease to the second one and then unlocks.\<close>

theorem late_unlock_breaks_exclusion_witness:
  "\<exists>\<sigma> \<sigma>' ls. three_reachable False \<sigma> \<and> Valid \<sigma> three_key ''a'' = Some leaseDuration \<and>
     lock_run mem_perform mem_lookup 1000000 False three_stores \<sigma> (Begin 0 (UnlockCall ''cert'') # ls) \<sigma>' \<and>
     protected 1000000 \<sigma>' three_key ''b'' \<and> protected 1000000 \<sigma>' three_key ''c''"
proof -
  let ?n = "cleanKey ''cert'' leasePrefix"
  obtain \<sigma>1 rec v where one: "three_reachable False \<sigma>1" "Threads \<sigma>1 = (\<lambda>i. Resting)" "RealTime \<sigma>1 = 0"
    "Valid \<sigma>1 = (\<lambda>k me. None)(three_key := [''a'' \<mapsto> leaseDuration])"
    "mem_lookup (Server \<sigma>1) three_key = Some (rec, v)" "HolderIdentity rec = ''a''" "RenewTime rec = 0"
    by (rule first_takes)
  let ?\<sigma>2 = "\<sigma>1\<lparr>RealTime := 6000000\<rparr>"
  have two: "three_reachable False ?\<sigma>2"
    by (rule lock_reachable.step [OF one(1) lock_step.tick]) (simp add: one(3))
  have "mem_server.may_take (LeaseID (three_stores 1)) 6000000 (mem_lookup (Server ?\<sigma>2) (StorageNs (three_stores 1), ?n))"
    using one(5-7) by (simp add: mem_server.may_take_def held_by_other_def leaseDuration_def)
  from mem_server.attempt_run [where skew = 1000000 and timely = False and stores = three_stores, OF _ _ this] one(2)
  obtain \<sigma>3 where run: "lock_run mem_perform mem_lookup 1000000 False three_stores ?\<sigma>2 (mem_server.attempt 1 ?n) \<sigma>3"
    and after: "mem_server.after_attempt (three_stores 1) ?n 6000000 ?\<sigma>2 \<sigma>3" by auto
  have three: "three_reachable False \<sigma>3" by (rule lock_run_reachable [OF run two])
  have fields: "Threads \<sigma>3 = (\<lambda>i. Resting)" "Valid \<sigma>3 three_key ''a'' = Some leaseDuration"
    "protected 1000000 \<sigma>3 three_key ''b''" "mem_lookup (Server \<sigma>3) three_key \<noteq> None"
    using after one(2,4) by (auto simp: mem_server.after_attempt_def protected_def leaseDuration_def)
  from late_unlock_breaks_exclusion [OF mem_server.responsive_server_axioms, of 1000000 \<sigma>3 0 2 three_key three_stores "''cert''" "''b''"]
    fields obtain \<sigma>' where "lock_run mem_perform mem_lookup 1000000 False three_stores \<sigma>3
      [Begin 0 (UnlockCall ''cert''), Serve 0, End 0, Begin 2 (TryCall (snd three_key) False), Serve 2, Serve 2, End 2] \<sigma>'"
    "protected 1000000 \<sigma>' three_key ''b''" "protected 1000000 \<sigma>' three_key ''c''"
    by (auto simp: leaseDuration_def)
  with three fields(2) show ?thesis by blast
qed

end
