(* ===== verification/Caddy_Modules.thy ===== *)
theory Caddy_Modules
  imports Caddy_Convert Secret_Storage
begin

text \<open>
  The modules the repository has for Caddy: the certificate storage of \<open>pkg/storage\<close>, which the program registers, and
  the deprecated listener wrapper of \<open>pkg/proxy\<close>, which asks the PROXY protocol of every connection. No package of the
  program imports \<open>pkg/proxy\<close>; the module that the program has under the ID of the wrapper is Caddy's own
  (\<open>caddyhttp/proxyprotocol\<close>, imported by \<open>controller.go\<close>). Caddy finds a module by
  its ID, the name in the configuration after the namespace of the place where it stands. The
  listener and the policies of go-proxyproto are third-party code: type variables, and the
  parameter \<open>require\<close> for its policy \<open>REQUIRE\<close>.
\<close>

section \<open>The modules\<close>

definition SecretStorage_CaddyModule :: string where
  "SecretStorage_CaddyModule = ''caddy.storage.secret_store''"

definition CertMagicStorage :: "SecretStorage \<Rightarrow> SecretStorage result" where
  "CertMagicStorage s = Ok s"

record ('addr, 'policy) Wrapper =
  policy :: "('addr \<Rightarrow> 'policy result) option"

record ('listener, 'addr, 'policy) ProxyListener =
  Listener :: 'listener
  Policy :: "('addr \<Rightarrow> 'policy result) option"

definition Wrapper_CaddyModule :: string where
  "Wrapper_CaddyModule = ''caddy.listeners.proxy_protocol''"

definition newWrapper :: "('addr, 'policy) Wrapper" where
  "newWrapper = \<lparr>policy = None\<rparr>"

definition Wrapper_Provision :: "'policy \<Rightarrow> ('addr, 'policy) Wrapper \<Rightarrow> ('addr, 'policy) Wrapper result" where
  "Wrapper_Provision require pp = Ok (pp\<lparr>policy := Some (\<lambda>upstream. Ok require)\<rparr>)"

definition WrapListener :: "('addr, 'policy) Wrapper \<Rightarrow> 'listener \<Rightarrow> ('listener, 'addr, 'policy) ProxyListener" where
  "WrapListener pp l = \<lparr>Listener = l, Policy = policy pp\<rparr>"

section \<open>The configuration names the modules\<close>

text \<open>The ID of the module that a listener wrapper of the configuration asks for.\<close>

fun wrapper_module :: "raw_message \<Rightarrow> string option" where
  "wrapper_module (RawObject kvs) =
     (case map_of kvs ''wrapper'' of None \<Rightarrow> None | Some name \<Rightarrow> Some (''caddy.listeners.'' @ name))"
| "wrapper_module _ = None"

lemma storage_module_named:
  "''caddy.storage.'' @ System (secret_storage store) = SecretStorage_CaddyModule"
  by (simp add: secret_storage_def SecretStorage_CaddyModule_def)

text \<open>
  With the PROXY protocol enabled the module with the ID that \<open>pkg/proxy\<close> uses too comes before the TLS listener, as the
  comment there asks; and what the wrapper of \<open>pkg/proxy\<close>, once provisioned, makes of a listener requires the header of
  every connection.
\<close>

lemma proxy_protocol_first:
  "ProxyProtocol m \<Longrightarrow>
     map wrapper_module (ListenerWrappersRaw (http_server_of m hosts routes)) =
       [Some Wrapper_CaddyModule, Some ''caddy.listeners.tls'']"
  by (simp add: http_server_of_def Wrapper_CaddyModule_def)

lemma provisioned_wrapper_requires:
  "Wrapper_Provision require newWrapper = Ok pp \<Longrightarrow>
     \<exists>f. Policy (WrapListener pp l) = Some f \<and> f upstream = Ok require"
  by (auto simp: Wrapper_Provision_def WrapListener_def newWrapper_def)

end
