(* ===== verification/Config_Types.thy ===== *)
theory Config_Types
  imports Caddy_Convert
begin

text \<open>
  The types of the generated configuration. A configuration is made of messages, each of which
  Caddy decodes as the module that the place where it stands asks for: a handler by the key
  \<open>handler\<close>, a matcher by its key in the matcher set, an issuer by the key \<open>module\<close>. \<open>typed\<close> says
  which messages fit which place, with what the decoded value has to be: a status code that is a number, a
  reverse proxy with an upstream and parsable prefixes, a path matcher with a path. The plugins keep a
  configuration typed (locales \<open>typed_middleware\<close> and \<open>typed_plugin\<close>), so that every configuration the
  conversion returns is.
\<close>

section \<open>Typing\<close>

datatype place =
    Handler
  | Transport
  | Matcher string
  | Issuer
  | Wrapper_of_listener
  | Certificates string

definition canonical_prefix :: "string \<Rightarrow> bool" where
  "canonical_prefix s \<longleftrightarrow> (case ParsePrefix s of None \<Rightarrow> False | Some p \<Rightarrow> Prefix_String p = s)"

inductive typed :: "raw_message \<Rightarrow> place \<Rightarrow> bool" where
  rewrite: "typed (RawModule ''handler'' ''rewrite'' (Rewrite uri strip)) Handler"
| static_response: "Atoi code = Some n \<Longrightarrow> 200 \<le> n \<Longrightarrow> n \<le> 401 \<Longrightarrow>
    typed (RawModule ''handler'' ''static_response'' (StaticResponse code headers)) Handler"
| reverse_proxy: "typed t Transport \<Longrightarrow> upstreams \<noteq> [] \<Longrightarrow> list_all canonical_prefix proxies \<Longrightarrow>
    typed (RawModule ''handler'' ''reverse_proxy'' (ReverseProxy t upstreams proxies)) Handler"
| metrics: "typed (RawObject [(''handler'', ''metrics'')]) Handler"
| http_transport: "typed (RawModule ''protocol'' ''http'' (HTTPTransport tls)) Transport"
| match_protocol: "typed (RawString protocol) (Matcher ''protocol'')"
| match_host: "hosts \<noteq> [] \<Longrightarrow> typed (RawStrings hosts) (Matcher ''host'')"
| match_path: "paths \<noteq> [] \<Longrightarrow> typed (RawStrings paths) (Matcher ''path'')"
| acme: "typed (RawModule ''module'' ''acme'' (ACMEIssuer ca email eab)) Issuer"
| wrapper: "name \<in> {''proxy_protocol'', ''tls''} \<Longrightarrow> typed (RawObject [(''wrapper'', name)]) Wrapper_of_listener"
| load_folders: "folders \<noteq> [] \<Longrightarrow> typed (RawStrings folders) (Certificates ''load_folders'')"

definition typed_map :: "(string \<Rightarrow> place) \<Rightarrow> module_map \<Rightarrow> bool" where
  "typed_map place m \<longleftrightarrow> (\<forall>k v. m k = Some v \<longrightarrow> typed v (place k))"

definition typed_route :: "Route \<Rightarrow> bool" where
  "typed_route r \<longleftrightarrow>
     list_all (\<lambda>h. typed h Handler) (HandlersRaw r) \<and> list_all (typed_map Matcher) (MatcherSetsRaw r)"

definition typed_server :: "Server \<Rightarrow> bool" where
  "typed_server srv \<longleftrightarrow>
     list_all typed_route (Routes srv) \<and> list_all (\<lambda>w. typed w Wrapper_of_listener) (ListenerWrappersRaw srv) \<and>
     AutoHTTPS srv \<noteq> None"

definition typed_tls :: "TLSApp \<Rightarrow> bool" where
  "typed_tls tls \<longleftrightarrow>
     typed_map Certificates (CertificatesRaw tls) \<and>
     (case Automation tls of
        None \<Rightarrow> True
      | Some a \<Rightarrow> list_all (\<lambda>p. list_all (\<lambda>i. typed i Issuer) (IssuersRaw p)) (Policies a))"

definition typed_config :: "Config \<Rightarrow> bool" where
  "typed_config c \<longleftrightarrow> wf_config c \<and>
     (\<forall>tls. GetTLSApp c = Ok tls \<longrightarrow> typed_tls tls) \<and>
     (\<forall>srv. GetHTTPServer c = Ok (Some srv) \<or> GetMetricsServer c = Ok (Some srv) \<longrightarrow> typed_server srv)"

section \<open>The middlewares\<close>

locale typed_middleware =
  fixes handler :: IngressMiddleware
  assumes preserves: "handler inp = Ok r \<Longrightarrow> typed_route (InRoute inp) \<Longrightarrow> typed_route r"

lemma typed_append:
  "typed_route (append_handler h r) \<longleftrightarrow> typed_route r \<and> typed h Handler"
  "typed_route (append_matcher m r) \<longleftrightarrow> typed_route r \<and> typed_map Matcher m"
  by (auto simp: typed_route_def)

lemma typed_map_upd: "typed_map place m \<Longrightarrow> typed v (place k) \<Longrightarrow> typed_map place (m(k \<mapsto> v))"
  and typed_map_empty [simp]: "typed_map place Map.empty"
  by (auto simp: typed_map_def)

interpretation matcher_tm: typed_middleware MatcherPlugin_IngressHandler
  by unfold_locales
    (auto simp: MatcherPlugin_IngressHandler_def Let_def typed_append split: if_splits
      intro!: typed_map_upd typed.intros)

interpretation rewrite_tm: typed_middleware RewritePlugin_IngressHandler
  by unfold_locales (auto simp: RewritePlugin_IngressHandler_def Let_def typed_append intro!: typed.intros)

lemma redirect_code_range:
  assumes "redirect_code s = Ok code"
  obtains n where "Atoi code = Some n" and "200 \<le> n" and "n \<le> 401"
proof -
  have "Atoi ''301'' = Some 301" by code_simp
  with assms that show thesis by (auto simp: redirect_code_def split: if_splits option.splits)
qed

interpretation redirect_tm: typed_middleware RedirectPlugin_IngressHandler
proof
  fix inp r
  assume run: "RedirectPlugin_IngressHandler inp = Ok r" and ok: "typed_route (InRoute inp)"
  have permanent: "typed (RawModule ''handler'' ''static_response'' (StaticResponse code headers)) Handler"
    if "redirect_code s = Ok code" for code s headers
    using that by (rule redirect_code_range) (rule typed.static_response)
  have "Atoi ''302'' = Some 302" by code_simp
  then have "typed (RawModule ''handler'' ''static_response'' (StaticResponse ''302'' headers)) Handler" for headers
    by (rule typed.static_response) simp_all
  with permanent run ok show "typed_route r"
    by (auto simp: RedirectPlugin_IngressHandler_def Let_def typed_append split: if_splits intro: permanent)
qed

lemma parsed_proxies_canonical: "parseTrustedProxies entries = Ok ps \<Longrightarrow> list_all canonical_prefix ps"
proof -
  assume "parseTrustedProxies entries = Ok ps"
  then have "list_all2 (\<lambda>e p. parseTrustedProxy e = Ok p) entries ps" by (simp add: parseTrustedProxies_iff)
  then show ?thesis
    by (induction rule: list_all2_induct) (auto simp: canonical_prefix_def dest: parseTrustedProxy_idem)
qed

interpretation reverseproxy_tm: typed_middleware ReverseProxyPlugin_IngressHandler
  by unfold_locales
    (auto simp: ReverseProxyPlugin_IngressHandler_def Let_def typed_append split: if_splits
      intro!: typed.reverse_proxy typed.http_transport dest: parsed_proxies_canonical)

lemma as_IngressMiddleware_typed: "as_IngressMiddleware p = Some h \<Longrightarrow> typed_middleware h"
  by (cases p rule: as_IngressMiddleware.cases)
    (auto intro: matcher_tm.typed_middleware_axioms rewrite_tm.typed_middleware_axioms
      redirect_tm.typed_middleware_axioms reverseproxy_tm.typed_middleware_axioms)

lemma make_route_typed:
  assumes "make_route (ingress_handlers ps) config store ing rule path = Ok r"
  shows "typed_route r"
proof (rule range_loop_invariant [OF assms [unfolded make_route_def]])
  show "typed_route \<lparr>HandlersRaw = [], MatcherSetsRaw = []\<rparr>" by (simp add: typed_route_def)
next
  fix h s s'
  assume "h \<in> set (ingress_handlers ps)" and "typed_route s" and "call_middleware config store ing rule path h s = Ok s'"
  moreover from this(1) have "typed_middleware h"
    by (auto simp: ingress_handlers_def List.map_filter_def intro: as_IngressMiddleware_typed)
  ultimately show "typed_route s'" by (auto simp: call_middleware_def dest: typed_middleware.preserves)
qed

lemma make_routes_typed:
  assumes "make_routes (ingress_handlers ps) config store = Ok routes"
  shows "list_all typed_route routes"
proof -
  from make_routes_collect [OF assms] have
    "list_all2 (\<lambda>(ing, rule, path) r. make_route (ingress_handlers ps) config store ing rule path = Ok r)
       (ingress_paths (Ingresses store)) routes" .
  then have "\<exists>x. make_route (ingress_handlers ps) config store (fst x) (fst (snd x)) (snd (snd x)) = Ok r"
    if "r \<in> set routes" for r
    using that by (fastforce simp: list_all2_conv_all_nth in_set_conv_nth split_def)
  then show ?thesis by (auto simp: list_all_iff dest: make_route_typed)
qed

section \<open>The global plugins\<close>

lemma tls_frames [simp]:
  "GetTLSApp (set_server name srv c) = GetTLSApp c"
  "GetTLSApp (c\<lparr>Logging := l\<rparr>) = GetTLSApp c" "GetTLSApp (c\<lparr>StorageOf := st\<rparr>) = GetTLSApp c"
  "GetTLSApp (set_tls tls c) = Ok tls"
  by (auto simp: GetTLSApp_def set_server_def set_tls_def split: option.split app.split)

lemma typed_config_frames [simp]:
  "typed_config (c\<lparr>Logging := l\<rparr>) \<longleftrightarrow> typed_config c" "typed_config (c\<lparr>StorageOf := st\<rparr>) \<longleftrightarrow> typed_config c"
  by (simp_all add: typed_config_def)

lemma typed_set_tls: "typed_config c \<Longrightarrow> typed_tls tls \<Longrightarrow> typed_config (set_tls tls c)"
  by (auto simp: typed_config_def wf_set_tls)

lemma typed_set_server: "typed_config c \<Longrightarrow> typed_server srv \<Longrightarrow> typed_config (set_server name srv c)"
  by (auto simp: typed_config_def typed_server_def wf_set_server GetHTTPServer_set_server GetMetricsServer_set_server
      split: if_splits)

lemma typed_config_read:
  assumes "typed_config c"
  shows "GetTLSApp c = Ok tls \<Longrightarrow> typed_tls tls" and "GetHTTPServer c = Ok (Some srv) \<Longrightarrow> typed_server srv"
    and "GetMetricsServer c = Ok (Some srv) \<Longrightarrow> typed_server srv"
  using assms by (auto simp: typed_config_def)

lemma typed_NewConfig: "typed_config NewConfig"
  by (simp add: typed_config_def wf_NewConfig GetTLSApp_def GetHTTPServer_def GetMetricsServer_def get_server_def)
    (auto simp: NewConfig_def typed_tls_def typed_server_def default_http_server_def default_metrics_server_def)

locale typed_plugin =
  fixes handler :: GlobalMiddleware
  assumes preserves: "handler c s = Ok c' \<Longrightarrow> typed_config c \<Longrightarrow> typed_config c'"

lemma typed_automation: "typed_tls tls \<Longrightarrow> typed_tls (tls\<lparr>Automation := Some (automation_of m)\<rparr>)"
  by (simp add: typed_tls_def automation_of_def acmeIssuer_def typed.acme)

lemma typed_wrappers:
  "typed_server srv \<Longrightarrow> typed_server (srv\<lparr>ListenerWrappersRaw := [RawObject [(''wrapper'', ''proxy_protocol'')],
     RawObject [(''wrapper'', ''tls'')]]\<rparr>)"
  by (auto simp: typed_server_def intro!: typed.wrapper)

interpretation configmap_tp: typed_plugin ConfigMapPlugin_GlobalHandler
proof
  fix c s c'
  assume run: "ConfigMapPlugin_GlobalHandler c s = Ok c'" and ok: "typed_config c"
  note read = typed_config_read [OF ok]
  from run ok show "typed_config c'"
    by (auto simp: ConfigMapPlugin_GlobalHandler_def Let_def split: if_splits
        intro!: typed_set_server typed_set_tls typed_automation typed_wrappers dest: read)
qed

lemma typed_path_route: "typed h Handler \<Longrightarrow> typed_route (path_route h path)"
  by (simp add: path_route_def typed_route_def typed_map_upd typed.match_path)

lemma append_metrics_route_typed:
  assumes "append_metrics_route r c = Ok c'" and "typed_config c" and "typed_route r"
  shows "typed_config c'"
  using assms typed_config_read(3) [OF assms(2)]
  by (auto simp: append_metrics_route_def intro!: typed_set_server) (auto simp: typed_server_def)

interpretation healthz_tp: typed_plugin HealthzPlugin_GlobalHandler
proof
  fix c s c'
  assume "HealthzPlugin_GlobalHandler c s = Ok c'" and ok: "typed_config c"
  then have run: "append_metrics_route healthzRoute c = Ok c'" by (simp add: HealthzPlugin_GlobalHandler_def)
  have "Atoi (Itoa 200) = Some 200" by code_simp
  then have "typed_route healthzRoute"
    unfolding healthzRoute_def by (intro typed_path_route typed.static_response [where n = 200]) simp_all
  from append_metrics_route_typed [OF run ok this] show "typed_config c'" .
qed

interpretation metrics_tp: typed_plugin MetricsPlugin_GlobalHandler
proof
  fix c s c'
  assume "MetricsPlugin_GlobalHandler c s = Ok c'" and "typed_config c"
  moreover have "typed_route metricsRoute"
    unfolding metricsRoute_def by (intro typed_path_route typed.metrics)
  ultimately show "typed_config c'"
    by (auto simp: MetricsPlugin_GlobalHandler_def split: if_splits intro: append_metrics_route_typed)
qed

interpretation secrets_store_tp: typed_plugin SecretsStorePlugin_GlobalHandler
  by unfold_locales (auto simp: SecretsStorePlugin_GlobalHandler_def)

interpretation tls_tp: typed_plugin "TLSPlugin_GlobalHandler certFolder" for certFolder
proof
  fix c s c'
  assume run: "TLSPlugin_GlobalHandler certFolder c s = Ok c'" and ok: "typed_config c"
  note read = typed_config_read [OF ok]
  from run ok show "typed_config c'"
    by (auto simp: TLSPlugin_GlobalHandler_def Let_def split: if_splits intro!: typed_set_server typed_set_tls)
      (auto simp: typed_tls_def typed_server_def intro!: typed_map_upd typed.load_folders dest!: read)
qed

interpretation ingress_sort_tp: typed_plugin IngressSortPlugin_GlobalHandler
proof
  fix c s c'
  assume run: "IngressSortPlugin_GlobalHandler c s = Ok c'" and ok: "typed_config c"
  have "typed_server (srv\<lparr>Routes := rs\<rparr>)" if "typed_server srv" "sortRoutes (Routes srv) = Ok rs" for srv rs
    using that(1) sortRoutes_perm [OF that(2)] by (auto simp: typed_server_def list_all_iff dest: mset_eq_setD)
  with run ok typed_config_read(2) [OF ok] show "typed_config c'"
    by (auto simp: IngressSortPlugin_GlobalHandler_def split: if_splits intro!: typed_set_server)
qed

interpretation ingress_tp: typed_plugin "IngressPlugin_GlobalHandler iter reg" for iter reg
proof
  fix c s c'
  assume run: "IngressPlugin_GlobalHandler iter reg c s = Ok c'" and ok: "typed_config c"
  have "typed_server (srv\<lparr>Routes := rs\<rparr>)" if "typed_server srv" "list_all typed_route rs" for srv rs
    using that by (simp add: typed_server_def)
  with run ok typed_config_read(2) [OF ok] show "typed_config c'"
    by (auto simp: IngressPlugin_GlobalHandler_def intro!: typed_set_server dest!: make_routes_typed)
qed

section \<open>The conversion\<close>

lemma as_GlobalMiddleware_typed: "as_GlobalMiddleware iter reg certFolder p = Some h \<Longrightarrow> typed_plugin h"
  by (cases "(iter, reg, certFolder, p)" rule: as_GlobalMiddleware.cases)
    (auto intro: configmap_tp.typed_plugin_axioms healthz_tp.typed_plugin_axioms metrics_tp.typed_plugin_axioms
      secrets_store_tp.typed_plugin_axioms tls_tp.typed_plugin_axioms ingress_sort_tp.typed_plugin_axioms
      ingress_tp.typed_plugin_axioms)

lemma convert_preserves_types:
  assumes "ConvertToCaddyConfig iter iter' certFolder store = Ok cfg"
  shows "typed_config cfg"
proof -
  from assms obtain reg where loop: "range_loop (run_plugin iter' reg certFolder store)
      (Plugins iter reg (PluginsOrder (StoreOptions store))) NewConfig = Ok cfg"
    by (auto simp: ConvertToCaddyConfig_def)
  show ?thesis
  proof (rule range_loop_invariant [where P = typed_config, OF loop typed_NewConfig])
    fix p c c'
    assume "typed_config c" and "run_plugin iter' reg certFolder store p c = Ok c'"
    then show "typed_config c'"
      by (auto simp: run_plugin_def split: option.splits dest: as_GlobalMiddleware_typed typed_plugin.preserves)
  qed
qed

text \<open>
  C5. Type soundness of the conversion. Whatever the store holds and in whatever order the plugins
  run, a configuration that the conversion returns is well typed: both servers and the TLS app are in
  place, and every handler, matcher, transport, issuer, listener wrapper and certificate loader in it is a message that
  fits the place where it stands. And on a store whose rules have \<open>http\<close> sections with types and
  services, and that has a config map, the conversion does not get stuck: it returns a configuration or an error.
\<close>

theorem conversion_type_sound:
  assumes "visits_all iter" and "visits_all iter'"
  shows "case ConvertToCaddyConfig iter iter' certFolder store of
      Ok cfg \<Rightarrow> typed_config cfg | Err e \<Rightarrow> True | Panic p \<Rightarrow> \<not> wf_store store"
  using convert_preserves_types [of iter iter' certFolder store] convert_never_panics [OF assms, of store certFolder]
  by (auto split: result.split)

theorem conversion_type_sound_witness:
  "\<exists>cfg. ConvertToCaddyConfig rev id ''/certs'' sample_store = Ok cfg \<and> typed_config cfg \<and> length (http_routes cfg) = 1"
proof -
  note sound = conversion_type_sound [of rev id sample_store "''/certs''"]
  obtain r where "make_routes (ingress_handlers (map Some (plugins_in_order []))) NewConfig sample_store = Ok [r]"
    using sample_store_routes by blast
  then have "ConvertToCaddyConfig rev id ''/certs'' sample_store =
     Ok (config_of zeroConfigMapOptions ''/certs'' (secret_storage sample_store)
           (tls_hosts (Ingresses sample_store)) [r] [healthzRoute])"
    using default_pipeline [of rev id sample_store zeroConfigMapOptions "''/certs''"] sample_store_fields(1,2)
    by (simp add: zeroConfigMapOptions_def del: bind_result_eq_Ok)
  with sound show ?thesis by (simp add: http_routes_def config_of_simps)
qed

end
