(* ===== verification/Spec2Isabelle.thy ===== *)
theory Spec2Isabelle
  imports Lifecycle Lock_System Caddy_Modules Config_Types
begin

text \<open>
  A verification of the Caddy ingress controller (\<open>github.com/caddyserver/ingress\<close>).

  \<^bold>\<open>The program.\<close> The controller watches the ingresses, one config map and the TLS secrets of a
  Kubernetes cluster. Events become actions on a work queue (\<open>internal/controller\<close>, filtered by
  \<open>internal/k8s\<close>); a worker takes one action after the other, applies it to the resource store
  (\<open>pkg/store\<close>), converts the store into a Caddy configuration by a pipeline of plugins
  (\<open>pkg/converter\<close>, \<open>internal/caddy\<close>) and loads it into the Caddy server in the same process. Every 30
  seconds it writes its addresses into the status of the ingresses. Caddy keeps its certificates in
  Kubernetes secrets through \<open>pkg/storage\<close>, which also provides certmagic's locks, as leases. The
  command is \<open>cmd/caddy\<close>.

  \<^bold>\<open>The theories\<close>, in the order in which they build on each other:
  \<^item> \<open>Prelude\<close>: outcomes of Go calls (value, error, panic), errors with wrapping, loops over slices.
  \<^item> \<open>Stable_Sort\<close>: \<open>sort.SliceStable\<close> with the contracts of its comparison functions as locales.
  \<^item> \<open>Go_Strings\<close>, \<open>Netip\<close>: the functions of \<open>strings\<close>, \<open>strconv\<close>, \<open>path/filepath\<close> and \<open>net/netip\<close> that
    the program calls, with the facts about them (parsing of printed values, canonical prefixes).
  \<^item> \<open>Kube_Types\<close>: the Kubernetes objects with the fields the program reads.
  \<^item> \<open>Resource_Store\<close>: \<open>pkg/store\<close>. The slice of ingresses implements a map from UIDs (locale
    \<open>resource_store\<close>); the config map parser around a decoder that is a parameter.
  \<^item> \<open>Converter\<close>: \<open>pkg/converter\<close>. The configuration, the registry of plugins and their order.
  \<^item> \<open>Ingress_Plugins\<close>, \<open>Global_Plugins\<close>: \<open>internal/caddy/ingress\<close> and \<open>internal/caddy/global\<close>, one
    definition per handler. Their contracts are the locales \<open>ingress_middleware\<close> and
    \<open>global_middleware\<close>, interpreted for every handler: what a handler appends, that it keeps the
    configuration whole, and that it does not panic on well-formed input.
  \<^item> \<open>Caddy_Convert\<close>: \<open>internal/caddy/convert.go\<close>. The pipeline; for the default order it refines the
    declarative \<open>config_of\<close>.
  \<^item> \<open>Config_Types\<close>: the types of the generated configuration, which message fits which place of it. Every
    handler keeps a configuration typed (locales \<open>typed_middleware\<close>, \<open>typed_plugin\<close>).
  \<^item> \<open>Clean_Key\<close>, \<open>Secret_Storage\<close>, \<open>Lease_Lock\<close>, \<open>Lock_System\<close>: \<open>pkg/storage\<close>. Names of secrets and
    leases; the storage as a map of canonical keys (locale \<open>certmagic_storage\<close>) over any client with
    the documented behaviour of the API server (locale \<open>secret_api\<close>); the locks as functions over a
    lease client (locales \<open>lease_api\<close>, \<open>lock_clock\<close>). \<open>Lock_System\<close> runs the calls of many instances, interleaved
    request by request over a server that is a parameter (locales \<open>lease_server\<close>, \<open>responsive_server\<close>), with a bound on
    the skew of their clocks: the next request of a call is computed by replaying the function on the answers it
    has got. The calls refine an atomic table of leases, and mutual exclusion is an invariant.
  \<^item> \<open>Caddy_Modules\<close>: the storage module the program registers with Caddy, the listener wrapper of \<open>pkg/proxy\<close>,
    which no package of the program imports, and that the generated configuration uses their IDs.
  \<^item> \<open>Kube_Watch\<close>, \<open>Ingress_Status\<close>: \<open>internal/k8s\<close> and \<open>action_status.go\<close>. Filters between events and
    handlers, addresses, and the updates of statuses.
  \<^item> \<open>Controller\<close>, \<open>Worker\<close>, \<open>Event_System\<close>: the rest of \<open>internal/controller\<close>. \<open>Controller\<close> has the actions,
    their handlers, the reload and the worker; \<open>Worker\<close> has what any sequence of actions does to the
    store, to the running configuration and to the files, when the worker panics and that it drains its
    queue; \<open>Event_System\<close> has the ingresses of the cluster according to the events, the UIDs whose last change the
    controller has missed, and the invariant between cluster, queue and store.
  \<^item> \<open>Command\<close>: \<open>cmd/caddy\<close>. Flags, the retried connection to the API server, the start.
  \<^item> \<open>Process\<close>, \<open>Process_Run\<close>, \<open>Process_Events\<close>, \<open>Lifecycle\<close>: \<open>Run\<close> of \<open>controller.go\<close> and \<open>main\<close> as goroutines of one
    process, with the informers of the two factories, the stop channel and the clock. One function per goroutine
    takes its next step; \<open>proc_step\<close> interleaves them (\<open>Process\<close>). \<open>Process_Run\<close> is a run in memory on which the
    properties are instantiated. \<open>Process_Events\<close>: what the process takes in, that every step of it keeps the
    invariant of \<open>Event_System\<close>, so that its store follows the cluster, and that the worker alone catches up. \<open>Lifecycle\<close>: what \<open>main\<close> starts, that
    nothing happens before the caches have synced, how a signal ends the process, and what the worker still does then.
  \<^item> this theory: from an action to the configuration that Caddy runs.

  \<^bold>\<open>How the code is modelled.\<close> A Go struct is a record with the fields the program uses, a pointer that
  may be nil an option, a function with an error result a function into \<open>result\<close>, where nil
  dereferences, index errors and \<open>Fatal\<close> exits are \<open>Panic\<close>. Mutable state is passed explicitly:
  \<open>Store\<close> and \<open>Config\<close> for the conversion, \<open>CaddyController\<close> for the worker, and a type variable for the
  world outside (API server, Caddy, files). Code that is not in the repository is a parameter: a
  record of functions (\<open>SecretClient\<close>, \<open>LeaseClient\<close>, \<open>IngressClient\<close>, \<open>QueueOps\<close>, \<open>ControllerEnv\<close>) whose
  documented behaviour is a locale, each with an interpretation on an in-memory instance that the
  witnesses use. The iteration orders of Go maps are parameters too. Times are integers in
  microseconds. Ingresses are values: the aliasing of the pointers in the queue, the informers' caches and the store
  matters only for the status entries that are sorted in place, and the theorems on the
  store see statuses up to order.

  \<^bold>\<open>Loops.\<close> Loops over slices are structural. \<open>Lock\<close>, the refresher and \<open>runWorker\<close> may run forever and are
  \<open>partial_function (option)\<close>; \<open>Lock_always_returns\<close> and \<open>runWorker_drains\<close> show where they return. The
  parser of the flags has a termination proof by the number of arguments. Nothing uses fuel; the retries of
  \<open>createApiserverClient\<close> are the ten steps of its backoff, and \<open>Run_alone\<close> counts the steps of \<open>Run\<close>, of which seven
  are enough (\<open>run_left\<close>).

  \<^bold>\<open>What the theorems show.\<close> Refinement: store, storage, default pipeline, lock calls and the actions of the
  worker each implement a short specification. Invariants: mutual exclusion of the instances by the locks, while
  releases are in time and up to the skew of the clocks; agreement of store and cluster in every run of the process,
  but for the changes that the event filters miss; agreement of the running and the
  remembered configuration. Types: every configuration that is returned is well typed.
  Safety and errors: no panic of the worker on well-formed input, and exactly where it does panic; no action before
  the caches have synced; only the controller's own ingresses in the store; the ways the process can end.
  Equivalences, round trips and bounds: independence of map iteration, stable sorting of routes,
  canonical trusted proxies, stored values, flags, names in RFC 1123 form, status updates. Liveness: the lock returns, the worker drains
  its queue and so catches up with the cluster, a signal ends the process.

  \<^bold>\<open>Not modelled.\<close> Logging beyond the level of the logger, with \<open>handleErr\<close>; the compile-time interface checks and the
  registration of the modules with Caddy; interleaving below a turn of the worker and the three parts of
  \<open>Shutdown\<close>, in particular the data race of the secret handlers that read the store while the worker writes it; the second
  between two runs of \<open>runWorker\<close>, which returns only from a queue that is shut down; JSON as text, which is kept as
  the value it encodes.
\<close>

section \<open>From an action to the configuration Caddy runs\<close>

text \<open>
  C1. With the default plugin order, a turn of the worker whose handler succeeds makes Caddy run the
  configuration of the store it has left: the routes of all stored ingresses, sorted if the config map
  asks for it, the certificates of the folder the secrets are written to, no automatic
  certificates for the hosts of TLS sections, and the secret storage with the lease identity of the flags;
  provided that the routes can be made, the configuration encodes and Caddy loads it.
\<close>

theorem turn_serves_store:
  assumes "caddy_controller env loaded files iter iter'" and "in_sync loaded c w"
    and "handle env action c w = (Ok u, c1, w1)" and "process_action env action c w = (r, c', w')"
    and "names_no_plugin (PluginsOrder (StoreOptions (resourceStore c)))"
    and "StoreConfigMap (resourceStore c1) = Some m"
    and "make_routes (ingress_handlers (map Some (plugins_in_order []))) NewConfig (resourceStore c1) = Ok made"
    and "(if ExperimentalSmartSort m then sortRoutes made else Ok made) = Ok routes"
    and "EnvMarshal env (config_of m (cert_folder env) (secret_storage (resourceStore c1))
           (tls_hosts (Ingresses (resourceStore c1))) routes
           (if Metrics m then [metricsRoute, healthzRoute] else [healthzRoute])) = Ok j"
    and "is_Ok (fst (EnvLoad env j w1))"
  shows "loaded w' = Some j \<and> lastAppliedConfig c' = j"
proof -
  note world = caddy_controller.axioms(1) [OF assms(1)]
  have "names_no_plugin (PluginsOrder (StoreOptions (resourceStore c1)))"
    using handle_store(3) [OF assms(3)] assms(5) by (simp add: same_frame_def)
  then have "running_after env loaded c1 w1 = Some j"
    using assms(6-10) by (simp add: running_after_def caddy_controller.converter [OF assms(1)]
        default_pipeline [OF caddy_controller.iter [OF assms(1)] caddy_controller.iter' [OF assms(1)]])
  then have "loaded w' = Some j" and "in_sync loaded c' w'"
    using controller_world.process_action_world [OF world assms(4,2,3)] by simp_all
  then show ?thesis by (auto simp: in_sync_def split: if_splits)
qed

theorem turn_serves_store_witness:
  "\<exists>c' w'. process_action mem_controller
      (IngressAddedAction (sample_ingress Map.empty [] [\<lparr>Host = ''example.com'', HTTP = Some [sample_path]\<rparr>]))
      ((sample_controller ())\<lparr>resourceStore := NewStore sample_options [] None\<rparr>) empty_world = (Ok True, c', w') \<and>
    MemLoaded w' = Some ''routes:1''"
proof -
  let ?ing = "sample_ingress Map.empty [] [\<lparr>Host = ''example.com'', HTTP = Some [sample_path]\<rparr>]"
  let ?c = "(sample_controller ())\<lparr>resourceStore := NewStore sample_options [] None\<rparr>"
  let ?c1 = "?c\<lparr>resourceStore := sample_store\<rparr>"
  have added: "AddIngress ?ing (NewStore sample_options [] None) = sample_store"
    by (simp add: AddIngress_def NewStore_def sample_store_def)
  have "\<not> HasManagedTLS sample_store"
    by (simp add: HasManagedTLS_def sample_store_def sample_ingress_def)
  then have h: "handle mem_controller (IngressAddedAction ?ing) ?c empty_world = (Ok (), ?c1, empty_world)"
    by (simp add: IngressAddedAction_handle_def watchTLSSecrets_def added)
  obtain r c' w' where run: "process_action mem_controller (IngressAddedAction ?ing) ?c empty_world = (r, c', w')"
    by (metis prod_cases3)
  have "wf_store (resourceStore c')"
    by (rule process_action_wf_store [OF run])
      (simp_all add: benign_def wf_ingress_def wf_store_def sample_ingress_def sample_path_def wf_path_def NewStore_def)
  then have r: "r = Ok True"
    using mem_ctl.process_action_panics [OF run] by (auto simp: mem_ctl.convert_wf)
  obtain route where routes: "make_routes (ingress_handlers (map Some (plugins_in_order []))) NewConfig sample_store = Ok [route]"
    using sample_store_routes by blast
  have sync: "in_sync MemLoaded ?c empty_world"
    by (simp add: in_sync_def sample_controller_def empty_world_def)
  have one: "utoa (Suc 0) = ''1''" by code_simp
  have "MemLoaded w' = Some ''routes:1'' \<and> lastAppliedConfig c' = ''routes:1''"
    by (rule turn_serves_store [OF mem_ctl.caddy_controller_axioms sync h run, where made = "[route]"
          and m = zeroConfigMapOptions and routes = "[route]"])
      (use routes sample_store_fields in \<open>simp_all add: NewStore_def sample_options_def names_no_plugin_flags
        zeroConfigMapOptions_def mem_controller_def http_routes_def config_of_simps one\<close>)
  with r run show ?thesis by blast
qed

end
